theory Spec2Isabelle
  imports Complex_Main "HOL-Library.Multiset"
begin

section \<open>Airport landing scheduler: data model\<close>

text \<open>
  The program is \<^verbatim>\<open>simulation.py\<close>. Python floats are modelled as exact reals, Python
  integers that only count (identifiers, strip numbers, loop counters) as naturals or
  integers. Exceptions are values of type \<open>error\<close>; a function that can raise returns
  \<open>error + 'a\<close> with \<open>Inl\<close> for the exception.
\<close>

datatype error = KeyError | ValueError | IndexError | ZeroDivisionError

text \<open>
  The class \<^verbatim>\<open>Airplane\<close>. The field \<^verbatim>\<open>id\<close> is named \<open>id'\<close>, since \<open>id\<close> is the
  identity function of HOL.
\<close>

record Airplane =
  id' :: nat
  fuel_consumption_rate :: real
  expected_landing_time :: real
  fuel_level :: real
  emergency_fuel :: real
  fuel_level_final :: real
  remaining_flying_time :: real
  is_urgent :: bool

subsection \<open>The random source\<close>

text \<open>
  The module \<^verbatim>\<open>random\<close> of the Python library is a process-wide generator. It is
  modelled as an infinite sequence of raw draws that every call consumes from the front;
  a raw draw \<open>u\<close> stands for the number \<open>frac u\<close> of the interval from 0 (included)
  to 1 (excluded). Theorems quantify over every such sequence.
\<close>

type_synonym rng = "nat \<Rightarrow> real"

definition random_random :: "rng \<Rightarrow> real \<times> rng" where
  "random_random g = (frac (g 0), (\<lambda>n. g (Suc n)))"

definition random_uniform :: "real \<Rightarrow> real \<Rightarrow> rng \<Rightarrow> real \<times> rng" where
  "random_uniform a b g = (case random_random g of (u, g') \<Rightarrow> (a + (b - a) * u, g'))"

definition randbelow :: "nat \<Rightarrow> rng \<Rightarrow> nat \<times> rng" where
  "randbelow n g = (case random_random g of (u, g') \<Rightarrow> (nat \<lfloor>u * real n\<rfloor>, g'))"

subsection \<open>Airplane construction\<close>

text \<open>
  \<^verbatim>\<open>Airplane.__init__\<close>: three uniform draws, then the derived fields. The division
  raises \<^verbatim>\<open>ZeroDivisionError\<close> on a zero consumption rate.
\<close>

definition Airplane_init ::
  "nat \<Rightarrow> real \<Rightarrow> real \<Rightarrow> real \<Rightarrow> real \<Rightarrow> rng \<Rightarrow> error + (Airplane \<times> rng)" where
  "Airplane_init i min_fuel max_fuel min_arrival_time max_arrival_time g =
     (case random_uniform 5 20 g of (rate, g1) \<Rightarrow>
      case random_uniform min_arrival_time max_arrival_time g1 of (elt, g2) \<Rightarrow>
      case random_uniform min_fuel max_fuel g2 of (fl0, g3) \<Rightarrow>
      let ef = rate * 60;
          fl = max fl0 ef;
          flf = fl - ef
      in if rate = 0 then Inl ZeroDivisionError
         else let rft = flf / rate
              in Inr (\<lparr>id' = i, fuel_consumption_rate = rate, expected_landing_time = elt,
                        fuel_level = fl, emergency_fuel = ef, fuel_level_final = flf,
                        remaining_flying_time = rft,
                        is_urgent = (flf < ef \<or> rft < 1)\<rparr>, g3))"


subsection \<open>Schedules\<close>

text \<open>
  A schedule is a pandas \<^verbatim>\<open>DataFrame\<close> with the columns \<^verbatim>\<open>Airplane ID\<close>,
  \<^verbatim>\<open>Actual Landing Time\<close>, \<^verbatim>\<open>Urgent\<close>, \<^verbatim>\<open>Landing Strip\<close> and, once a score has been
  written with \<^verbatim>\<open>.at\<close>, \<^verbatim>\<open>Score\<close>. The frame records whether the column
  \<^verbatim>\<open>Score\<close> exists (\<open>has_Score\<close>); a cell of that column that was never written is
  \<open>None\<close> (pandas keeps NaN there). The row labels are always the positions
  \<open>0, 1, \<dots>\<close>, so \<^verbatim>\<open>.at[index, \<dots>]\<close> addresses a row by its position.
\<close>

record row =
  Airplane_ID :: nat
  Actual_Landing_Time :: real
  Urgent :: bool
  Landing_Strip :: nat
  Score :: "real option"

record DataFrame =
  rows :: "row list"
  has_Score :: bool

subsection \<open>\<^verbatim>\<open>schedule_landings\<close>\<close>

text \<open>
  The loop over \<^verbatim>\<open>sorted_airplanes\<close>, with the loop variables
  \<^verbatim>\<open>landing_strip_availability\<close>, \<^verbatim>\<open>landing_strip_index\<close> and
  \<^verbatim>\<open>landing_schedule\<close> as arguments.
\<close>

fun schedule_loop :: "Airplane list \<Rightarrow> real list \<Rightarrow> nat \<Rightarrow> row list \<Rightarrow> row list" where
  "schedule_loop [] landing_strip_availability landing_strip_index landing_schedule =
     landing_schedule"
| "schedule_loop (airplane # rest) landing_strip_availability landing_strip_index landing_schedule =
     (let chosen_strip = landing_strip_index mod 3;
          next_available_time_with_gap = landing_strip_availability ! chosen_strip + 3 / 60;
          t = max (expected_landing_time airplane) next_available_time_with_gap;
          actual_landing_time =
            (if is_urgent airplane \<and> t > remaining_flying_time airplane
             then remaining_flying_time airplane else t)
      in schedule_loop rest
           (landing_strip_availability[chosen_strip := actual_landing_time + 3])
           (landing_strip_index + 1)
           (landing_schedule @
              [\<lparr>Airplane_ID = id' airplane, Actual_Landing_Time = actual_landing_time,
                Urgent = is_urgent airplane, Landing_Strip = chosen_strip + 1,
                Score = None\<rparr>]))"

text \<open>
  Python's \<^verbatim>\<open>sorted\<close> is stable, as \<open>sort_key\<close> is. The frame is created without a
  \<^verbatim>\<open>Score\<close> column.
\<close>

definition schedule_landings :: "Airplane list \<Rightarrow> DataFrame" where
  "schedule_landings airplane_stream =
     (let urgent_airplanes = sort_key remaining_flying_time (filter is_urgent airplane_stream);
          non_urgent_airplanes =
            sort_key expected_landing_time (filter (\<lambda>ap. \<not> is_urgent ap) airplane_stream);
          sorted_airplanes = urgent_airplanes @ non_urgent_airplanes
      in \<lparr>rows = schedule_loop sorted_airplanes [0, 0, 0] 0 [], has_Score = False\<rparr>)"

text \<open>
  The relations that \<^verbatim>\<open>Airplane.__init__\<close> establishes between the fuel fields of an
  airplane (lines 15 to 18 of the source). Later code only changes \<^verbatim>\<open>is_urgent\<close>.
\<close>

definition construction_invariants :: "Airplane \<Rightarrow> bool" where
  "construction_invariants a =
     (0 < fuel_consumption_rate a
      \<and> emergency_fuel a \<le> fuel_level a
      \<and> fuel_level_final a = fuel_level a - emergency_fuel a
      \<and> remaining_flying_time a = fuel_level_final a / fuel_consumption_rate a)"

subsection \<open>\<^verbatim>\<open>evaluate_landing_schedule\<close>\<close>

text \<open>
  \<^verbatim>\<open>df.at[index, 'Score'] = score\<close> writes one cell and creates the column when the
  frame has none. \<^verbatim>\<open>df['Score']\<close> raises \<^verbatim>\<open>KeyError\<close> when the frame has no such
  column; \<^verbatim>\<open>.sum()\<close> skips the cells that were never written.
\<close>

definition at_set_Score :: "DataFrame \<Rightarrow> nat \<Rightarrow> real \<Rightarrow> DataFrame" where
  "at_set_Score df index score =
     df\<lparr>rows := (rows df)[index := (rows df ! index)\<lparr>Score := Some score\<rparr>],
        has_Score := True\<rparr>"

definition at_set_Actual_Landing_Time :: "DataFrame \<Rightarrow> nat \<Rightarrow> real \<Rightarrow> DataFrame" where
  "at_set_Actual_Landing_Time df index t =
     df\<lparr>rows := (rows df)[index := (rows df ! index)\<lparr>Actual_Landing_Time := t\<rparr>]\<rparr>"

definition Score_sum :: "DataFrame \<Rightarrow> error + real" where
  "Score_sum df =
     (if has_Score df
      then Inr (sum_list (map (\<lambda>r. case Score r of None \<Rightarrow> 0 | Some s \<Rightarrow> s) (rows df)))
      else Inl KeyError)"

text \<open>\<^verbatim>\<open>df.iterrows()\<close>: the rows with their labels, read when the loop starts.\<close>

definition iterrows :: "DataFrame \<Rightarrow> (nat \<times> row) list" where
  "iterrows df = zip [0..<length (rows df)] (rows df)"

text \<open>
  \<^verbatim>\<open>next((ap for ap in airplane_stream if ap.id == row['Airplane ID']), None)\<close>:
  the first airplane of the stream with that identifier.
\<close>

definition lookup_airplane :: "Airplane list \<Rightarrow> nat \<Rightarrow> Airplane option" where
  "lookup_airplane airplane_stream i = find (\<lambda>ap. id' ap = i) airplane_stream"

fun evaluate_loop :: "(nat \<times> row) list \<Rightarrow> Airplane list \<Rightarrow> DataFrame \<Rightarrow> DataFrame" where
  "evaluate_loop [] airplane_stream df = df"
| "evaluate_loop ((index, row) # rest) airplane_stream df =
     (case lookup_airplane airplane_stream (Airplane_ID row) of
        None \<Rightarrow> evaluate_loop rest airplane_stream df
      | Some airplane \<Rightarrow>
          (let difference = \<bar>expected_landing_time airplane - Actual_Landing_Time row\<bar>;
               urgency_penalty = (if is_urgent airplane then 100 else 0);
               score = 1000 - difference - urgency_penalty
           in evaluate_loop rest airplane_stream (at_set_Score df index score)))"

text \<open>
  The function writes the scores into the frame it is given and returns the total; the
  model returns the frame as it is after the call, with the total.
\<close>

definition evaluate_landing_schedule ::
  "DataFrame \<Rightarrow> Airplane list \<Rightarrow> error + (DataFrame \<times> real)" where
  "evaluate_landing_schedule landing_schedule_df airplane_stream =
     (let df = evaluate_loop (iterrows landing_schedule_df) airplane_stream landing_schedule_df
      in case Score_sum df of
           Inl e \<Rightarrow> Inl e
         | Inr total_score \<Rightarrow> Inr (df, total_score))"

text \<open>
  What one turn of the loop of \<^verbatim>\<open>evaluate_landing_schedule\<close> does to the record it
  visits (used to state the effect of the loop on the whole frame).
\<close>

definition score_row :: "Airplane list \<Rightarrow> row \<Rightarrow> row" where
  "score_row aps r =
     (case lookup_airplane aps (Airplane_ID r) of
        None \<Rightarrow> r
      | Some a \<Rightarrow> r\<lparr>Score := Some (1000 - \<bar>expected_landing_time a - Actual_Landing_Time r\<bar>
                                   - (if is_urgent a then 100 else 0))\<rparr>)"

subsection \<open>\<^verbatim>\<open>get_successors\<close>\<close>

text \<open>
  The exchange of two rows by position:
  \<^verbatim>\<open>df.iloc[i], df.iloc[j] = df.iloc[j].copy(), df.iloc[i].copy()\<close>. The right-hand
  side is read first, then position \<open>i\<close> is written, then position \<open>j\<close>. A position
  outside the frame raises \<^verbatim>\<open>IndexError\<close>.
\<close>

definition swap_iloc :: "nat \<Rightarrow> nat \<Rightarrow> DataFrame \<Rightarrow> error + DataFrame" where
  "swap_iloc i j df =
     (if i < length (rows df) \<and> j < length (rows df)
      then (let row_j = rows df ! j; row_i = rows df ! i
            in Inr (df\<lparr>rows := ((rows df)[i := row_j])[j := row_i]\<rparr>))
      else Inl IndexError)"

fun get_successors_inner ::
  "DataFrame \<Rightarrow> nat \<Rightarrow> nat list \<Rightarrow> DataFrame list \<Rightarrow> error + DataFrame list" where
  "get_successors_inner df i [] successors = Inr successors"
| "get_successors_inner df i (j # js) successors =
     (case swap_iloc i j df of
        Inl e \<Rightarrow> Inl e
      | Inr new_schedule_df \<Rightarrow> get_successors_inner df i js (successors @ [new_schedule_df]))"

fun get_successors_outer ::
  "DataFrame \<Rightarrow> nat list \<Rightarrow> DataFrame list \<Rightarrow> error + DataFrame list" where
  "get_successors_outer df [] successors = Inr successors"
| "get_successors_outer df (i # is) successors =
     (case get_successors_inner df i [i + 1..<length (rows df)] successors of
        Inl e \<Rightarrow> Inl e
      | Inr successors' \<Rightarrow> get_successors_outer df is successors')"

definition get_successors :: "DataFrame \<Rightarrow> Airplane list \<Rightarrow> error + DataFrame list" where
  "get_successors landing_schedule_df airplane_stream =
     (if length (rows landing_schedule_df) \<le> 1 then Inr [landing_schedule_df]
      else get_successors_outer landing_schedule_df
             [0..<length (rows landing_schedule_df)] [])"

subsection \<open>The urgency flags of hill climbing and tabu search\<close>

text \<open>
  Both optimisers start with a loop that overwrites \<^verbatim>\<open>is_urgent\<close> of every airplane
  of the stream (lines 264 to 266 and 385 to 386 of the source).
\<close>

definition hill_climbing_mark_urgent :: "Airplane list \<Rightarrow> Airplane list" where
  "hill_climbing_mark_urgent airplane_stream =
     map (\<lambda>airplane. airplane\<lparr>is_urgent :=
            (fuel_level_final airplane < emergency_fuel airplane
             \<or> remaining_flying_time airplane < expected_landing_time airplane)\<rparr>)
       airplane_stream"

definition tabu_search_mark_urgent :: "Airplane list \<Rightarrow> Airplane list" where
  "tabu_search_mark_urgent airplane_stream =
     map (\<lambda>airplane. airplane\<lparr>is_urgent :=
            (fuel_level_final airplane < emergency_fuel airplane
             \<or> remaining_flying_time airplane < expected_landing_time airplane)\<rparr>)
       airplane_stream"

subsection \<open>\<^verbatim>\<open>random.sample\<close> and \<^verbatim>\<open>random.choice\<close>\<close>

text \<open>
  \<^verbatim>\<open>random.sample(range(n), 2)\<close> returns two distinct positions below \<open>n\<close>, in
  either order, and raises \<^verbatim>\<open>ValueError\<close> when \<open>n < 2\<close>. The first position is drawn
  among \<open>n\<close>, the second among the \<open>n - 1\<close> that are left. \<^verbatim>\<open>random.choice\<close>
  raises \<^verbatim>\<open>IndexError\<close> on an empty list.
\<close>

definition random_sample2 :: "nat \<Rightarrow> rng \<Rightarrow> error + ((nat \<times> nat) \<times> rng)" where
  "random_sample2 n g =
     (if n < 2 then Inl ValueError
      else case randbelow n g of (i, g1) \<Rightarrow>
           case randbelow (n - 1) g1 of (k, g2) \<Rightarrow>
             Inr ((i, if k < i then k else k + 1), g2))"

definition random_choice :: "'a list \<Rightarrow> rng \<Rightarrow> error + ('a \<times> rng)" where
  "random_choice xs g =
     (if xs = [] then Inl IndexError
      else case randbelow (length xs) g of (k, g') \<Rightarrow> Inr (xs ! k, g'))"

subsection \<open>\<^verbatim>\<open>get_Hill_Tabu_successors\<close>\<close>

text \<open>
  The loop that computes the landing times and the scores of a successor again. The
  deque \<^verbatim>\<open>strip_availability_times\<close> always holds three times: each turn removes the
  first and appends one, then sorts.
\<close>

fun recompute_loop ::
  "(nat \<times> row) list \<Rightarrow> Airplane list \<Rightarrow> real list \<Rightarrow> DataFrame \<Rightarrow> DataFrame" where
  "recompute_loop [] airplane_stream strip_availability_times df = df"
| "recompute_loop ((index, row) # rest) airplane_stream strip_availability_times df =
     (case lookup_airplane airplane_stream (Airplane_ID row) of
        None \<Rightarrow> recompute_loop rest airplane_stream strip_availability_times df
      | Some airplane \<Rightarrow>
          (let current_time = max (hd strip_availability_times) (expected_landing_time airplane);
               df1 = at_set_Actual_Landing_Time df index current_time;
               difference = \<bar>expected_landing_time airplane - current_time\<bar>;
               urgency_penalty = (if is_urgent airplane then 100 else 0);
               score = 1000 - difference - urgency_penalty;
               df2 = at_set_Score df1 index score;
               strip_availability_times' =
                 sort (tl strip_availability_times @ [current_time + 3])
           in recompute_loop rest airplane_stream strip_availability_times' df2))"

fun get_Hill_Tabu_successors_loop ::
  "nat \<Rightarrow> DataFrame \<Rightarrow> Airplane list \<Rightarrow> DataFrame list \<Rightarrow> rng
     \<Rightarrow> error + (DataFrame list \<times> rng)" where
  "get_Hill_Tabu_successors_loop 0 landing_schedule_df airplane_stream successors g =
     Inr (successors, g)"
| "get_Hill_Tabu_successors_loop (Suc k) landing_schedule_df airplane_stream successors g =
     (case random_sample2 (length (rows landing_schedule_df)) g of
        Inl e \<Rightarrow> Inl e
      | Inr ((i, j), g') \<Rightarrow>
          (case swap_iloc i j landing_schedule_df of
             Inl e \<Rightarrow> Inl e
           | Inr new_schedule_df \<Rightarrow>
               get_Hill_Tabu_successors_loop k landing_schedule_df airplane_stream
                 (successors @
                    [recompute_loop (iterrows new_schedule_df) airplane_stream [0, 0, 0]
                       new_schedule_df])
                 g'))"

definition get_Hill_Tabu_successors ::
  "DataFrame \<Rightarrow> Airplane list \<Rightarrow> nat \<Rightarrow> rng \<Rightarrow> error + (DataFrame list \<times> rng)" where
  "get_Hill_Tabu_successors landing_schedule_df airplane_stream num_successors g =
     get_Hill_Tabu_successors_loop num_successors landing_schedule_df airplane_stream [] g"

subsection \<open>\<^verbatim>\<open>hill_climbing_schedule_landings\<close>\<close>

text \<open>
  The loop over the neighbours keeps the one of lowest score.
  \<^verbatim>\<open>evaluate_landing_schedule\<close> writes into the neighbour it is given, and
  \<^verbatim>\<open>next_state_df\<close> is that same frame.
\<close>

fun hill_climbing_neighbors ::
  "DataFrame list \<Rightarrow> Airplane list \<Rightarrow> DataFrame \<Rightarrow> real \<Rightarrow> error + (DataFrame \<times> real)" where
  "hill_climbing_neighbors [] airplane_stream next_state_df next_score =
     Inr (next_state_df, next_score)"
| "hill_climbing_neighbors (neighbor_df # rest) airplane_stream next_state_df next_score =
     (case evaluate_landing_schedule neighbor_df airplane_stream of
        Inl e \<Rightarrow> Inl e
      | Inr (neighbor_df', score) \<Rightarrow>
          if score < next_score
          then hill_climbing_neighbors rest airplane_stream neighbor_df' score
          else hill_climbing_neighbors rest airplane_stream next_state_df next_score)"

text \<open>
  The loop \<^verbatim>\<open>while True\<close>, with the variables \<^verbatim>\<open>landing_schedule_df\<close>,
  \<^verbatim>\<open>current_score\<close> and \<^verbatim>\<open>scores\<close>. Nothing bounds the number of its turns, so the
  result is an option: \<open>None\<close> is a run that never leaves the loop.
\<close>

partial_function (option) hill_climbing_loop ::
  "Airplane list \<Rightarrow> DataFrame \<Rightarrow> real \<Rightarrow> real list \<Rightarrow> rng
     \<Rightarrow> (error + (DataFrame \<times> real list)) option" where
  "hill_climbing_loop airplane_stream landing_schedule_df current_score scores g =
     (case get_Hill_Tabu_successors landing_schedule_df airplane_stream 15 g of
        Inl e \<Rightarrow> Some (Inl e)
      | Inr (neighbors, g') \<Rightarrow>
          (case hill_climbing_neighbors neighbors airplane_stream
                  landing_schedule_df current_score of
             Inl e \<Rightarrow> Some (Inl e)
           | Inr (next_state_df, next_score) \<Rightarrow>
               if next_score = current_score
               then Some (Inr (landing_schedule_df, scores))
               else hill_climbing_loop airplane_stream next_state_df next_score scores g'))"

definition hill_climbing_schedule_landings ::
  "Airplane list \<Rightarrow> rng \<Rightarrow> (error + (DataFrame \<times> real list)) option" where
  "hill_climbing_schedule_landings airplane_stream g =
     (let airplane_stream' = hill_climbing_mark_urgent airplane_stream;
          landing_schedule_df = schedule_landings airplane_stream'
      in case evaluate_landing_schedule landing_schedule_df airplane_stream' of
           Inl e \<Rightarrow> Some (Inl e)
         | Inr (landing_schedule_df', current_score) \<Rightarrow>
             hill_climbing_loop airplane_stream' landing_schedule_df' current_score [] g)"

subsection \<open>\<^verbatim>\<open>tabu_search_schedule_landings\<close>\<close>

text \<open>
  The loop over the neighbours of one iteration, with the variables
  \<^verbatim>\<open>best_solution_df\<close>, \<^verbatim>\<open>best_solution_score\<close>, \<^verbatim>\<open>next_state_df\<close>,
  \<^verbatim>\<open>next_score\<close> and \<^verbatim>\<open>tabu_list\<close>. \<^verbatim>\<open>DataFrame.to_string\<close> is a function of
  pandas and is a parameter of the model. The string is taken before
  \<^verbatim>\<open>evaluate_landing_schedule\<close> writes into the neighbour; the neighbours as they are
  after that call are collected in \<open>evaluated\<close>, since \<^verbatim>\<open>random.choice(neighbors)\<close>
  reads them later.
\<close>

fun tabu_search_neighbors ::
  "(DataFrame \<Rightarrow> string) \<Rightarrow> Airplane list \<Rightarrow> int \<Rightarrow> DataFrame list \<Rightarrow> DataFrame list
     \<Rightarrow> DataFrame \<Rightarrow> real \<Rightarrow> DataFrame \<Rightarrow> real \<Rightarrow> string list
     \<Rightarrow> error + (DataFrame list \<times> DataFrame \<times> real \<times> DataFrame \<times> real \<times> string list)" where
  "tabu_search_neighbors to_string airplane_stream max_tabu_size [] evaluated
       best_solution_df best_solution_score next_state_df next_score tabu_list =
     Inr (evaluated, best_solution_df, best_solution_score, next_state_df, next_score, tabu_list)"
| "tabu_search_neighbors to_string airplane_stream max_tabu_size (neighbor_df # rest) evaluated
       best_solution_df best_solution_score next_state_df next_score tabu_list =
     (let neighbor_string = to_string neighbor_df
      in case evaluate_landing_schedule neighbor_df airplane_stream of
           Inl e \<Rightarrow> Inl e
         | Inr (neighbor_df', score) \<Rightarrow>
             (let best_solution_df' =
                    (if score < best_solution_score then neighbor_df' else best_solution_df);
                  best_solution_score' =
                    (if score < best_solution_score then score else best_solution_score)
              in if neighbor_string \<notin> set tabu_list
                 then (let next_state_df' = (if score < next_score then neighbor_df' else next_state_df);
                           next_score' = (if score < next_score then score else next_score);
                           tabu_list1 = tabu_list @ [neighbor_string];
                           tabu_list2 = (if int (length tabu_list1) > max_tabu_size
                                         then tl tabu_list1 else tabu_list1)
                       in tabu_search_neighbors to_string airplane_stream max_tabu_size rest
                            (evaluated @ [neighbor_df'])
                            best_solution_df' best_solution_score' next_state_df' next_score'
                            tabu_list2)
                 else tabu_search_neighbors to_string airplane_stream max_tabu_size rest
                        (evaluated @ [neighbor_df'])
                        best_solution_df' best_solution_score' next_state_df next_score
                        tabu_list))"

text \<open>
  One turn of the loop \<^verbatim>\<open>while it < max_iterations\<close>, without the final
  \<^verbatim>\<open>it += 1\<close>. The call of \<^verbatim>\<open>evaluate_landing_schedule\<close> on line 401 writes into
  \<^verbatim>\<open>landing_schedule_df\<close>, which \<^verbatim>\<open>next_state_df\<close> and \<^verbatim>\<open>best_solution_df\<close> also
  name.
\<close>

definition tabu_search_iteration ::
  "(DataFrame \<Rightarrow> string) \<Rightarrow> Airplane list \<Rightarrow> int \<Rightarrow> DataFrame \<Rightarrow> real \<Rightarrow> real list
     \<Rightarrow> string list \<Rightarrow> rng
     \<Rightarrow> error + (DataFrame \<times> real \<times> real list \<times> string list \<times> rng)" where
  "tabu_search_iteration to_string airplane_stream max_tabu_size landing_schedule_df
       current_score scores tabu_list g =
     (case get_Hill_Tabu_successors landing_schedule_df airplane_stream 15 g of
        Inl e \<Rightarrow> Inl e
      | Inr (neighbors, g1) \<Rightarrow>
          (let scores' = scores @ [current_score]
           in case evaluate_landing_schedule landing_schedule_df airplane_stream of
                Inl e \<Rightarrow> Inl e
              | Inr (landing_schedule_df', best_solution_score) \<Rightarrow>
                  (case tabu_search_neighbors to_string airplane_stream max_tabu_size
                           neighbors [] landing_schedule_df' best_solution_score
                           landing_schedule_df' current_score tabu_list of
                     Inl e \<Rightarrow> Inl e
                   | Inr (neighbors', best_solution_df, best_solution_score',
                          next_state_df, next_score, tabu_list') \<Rightarrow>
                       if next_score \<ge> current_score
                       then (case random_random g1 of (u, g2) \<Rightarrow>
                               if u < 0.1
                               then (case random_choice neighbors' g2 of
                                       Inl e \<Rightarrow> Inl e
                                     | Inr (chosen, g3) \<Rightarrow>
                                         (case evaluate_landing_schedule chosen airplane_stream of
                                            Inl e \<Rightarrow> Inl e
                                          | Inr (chosen', chosen_score) \<Rightarrow>
                                              Inr (chosen', chosen_score, scores', tabu_list', g3)))
                               else Inr (best_solution_df, best_solution_score', scores',
                                         tabu_list', g2))
                       else Inr (next_state_df, next_score, scores', tabu_list', g1))))"

text \<open>
  The loop. Its result holds, besides the pair that the function returns, the final
  value of the counter \<^verbatim>\<open>it\<close>, which is the number of turns made.
\<close>

function tabu_search_loop ::
  "(DataFrame \<Rightarrow> string) \<Rightarrow> Airplane list \<Rightarrow> int \<Rightarrow> int \<Rightarrow> DataFrame \<Rightarrow> real \<Rightarrow> real list
     \<Rightarrow> string list \<Rightarrow> int \<Rightarrow> rng \<Rightarrow> error + (DataFrame \<times> real list \<times> int)" where
  "tabu_search_loop to_string airplane_stream max_iterations max_tabu_size landing_schedule_df
       current_score scores tabu_list it g =
     (if it < max_iterations
      then (case tabu_search_iteration to_string airplane_stream max_tabu_size
                   landing_schedule_df current_score scores tabu_list g of
              Inl e \<Rightarrow> Inl e
            | Inr (landing_schedule_df', current_score', scores', tabu_list', g') \<Rightarrow>
                tabu_search_loop to_string airplane_stream max_iterations max_tabu_size
                  landing_schedule_df' current_score' scores' tabu_list' (it + 1) g')
      else Inr (landing_schedule_df, scores, it))"
  by pat_completeness auto
termination
  by (relation "measure (\<lambda>(to_string, airplane_stream, max_iterations, max_tabu_size,
                 landing_schedule_df, current_score, scores, tabu_list, it, g).
                 nat (max_iterations - it))") auto

declare tabu_search_loop.simps [simp del]

definition tabu_search_run ::
  "(DataFrame \<Rightarrow> string) \<Rightarrow> Airplane list \<Rightarrow> int \<Rightarrow> int \<Rightarrow> rng
     \<Rightarrow> error + (DataFrame \<times> real list \<times> int)" where
  "tabu_search_run to_string airplane_stream max_iterations max_tabu_size g =
     (let airplane_stream' = tabu_search_mark_urgent airplane_stream;
          landing_schedule_df = schedule_landings airplane_stream'
      in case evaluate_landing_schedule landing_schedule_df airplane_stream' of
           Inl e \<Rightarrow> Inl e
         | Inr (landing_schedule_df', current_score) \<Rightarrow>
             tabu_search_loop to_string airplane_stream' max_iterations max_tabu_size
               landing_schedule_df' current_score [] [] 0 g)"

definition tabu_search_schedule_landings ::
  "(DataFrame \<Rightarrow> string) \<Rightarrow> Airplane list \<Rightarrow> int \<Rightarrow> int \<Rightarrow> rng
     \<Rightarrow> error + (DataFrame \<times> real list)" where
  "tabu_search_schedule_landings to_string airplane_stream max_iterations max_tabu_size g =
     (case tabu_search_run to_string airplane_stream max_iterations max_tabu_size g of
        Inl e \<Rightarrow> Inl e
      | Inr (landing_schedule_df, scores, it) \<Rightarrow> Inr (landing_schedule_df, scores))"

subsection \<open>\<^verbatim>\<open>simulated_annealing_schedule_landings\<close>\<close>

text \<open>
  The loop of the inner function \<^verbatim>\<open>calculate_score\<close> is, statement by statement, the
  loop of \<^verbatim>\<open>evaluate_landing_schedule\<close>; the function returns the frame.
\<close>

definition calculate_score :: "DataFrame \<Rightarrow> Airplane list \<Rightarrow> DataFrame" where
  "calculate_score schedule_df airplane_stream =
     evaluate_loop (iterrows schedule_df) airplane_stream schedule_df"

definition get_schedule_neighbor :: "DataFrame \<Rightarrow> rng \<Rightarrow> error + (DataFrame \<times> rng)" where
  "get_schedule_neighbor schedule_df g =
     (case random_sample2 (length (rows schedule_df)) g of
        Inl e \<Rightarrow> Inl e
      | Inr ((i, j), g') \<Rightarrow>
          (case swap_iloc i j schedule_df of
             Inl e \<Rightarrow> Inl e
           | Inr neighbor_df \<Rightarrow> Inr (neighbor_df, g')))"

definition T_min :: real where
  "T_min = 0.001"

definition alpha :: real where
  "alpha = 0.9"

text \<open>
  One turn of the loop \<^verbatim>\<open>while T > T_min\<close>, without the cooling step. The random
  number is drawn, and \<^verbatim>\<open>math.exp\<close> called, only when the new score is not greater than
  the current one; the argument of \<^verbatim>\<open>math.exp\<close> is then at most 0.
\<close>

definition simulated_annealing_iteration ::
  "Airplane list \<Rightarrow> DataFrame \<Rightarrow> real \<Rightarrow> DataFrame \<Rightarrow> real \<Rightarrow> real \<Rightarrow> rng
     \<Rightarrow> error + (DataFrame \<times> real \<times> DataFrame \<times> real \<times> rng)" where
  "simulated_annealing_iteration airplane_stream current_schedule current_score
       best_schedule best_score T g =
     (case get_schedule_neighbor current_schedule g of
        Inl e \<Rightarrow> Inl e
      | Inr (neighbor_df, g1) \<Rightarrow>
          (let new_schedule = calculate_score neighbor_df airplane_stream
           in case Score_sum new_schedule of
                Inl e \<Rightarrow> Inl e
              | Inr new_score \<Rightarrow>
                  if new_score > current_score
                  then Inr (new_schedule, new_score,
                            if new_score > best_score then new_schedule else best_schedule,
                            if new_score > best_score then new_score else best_score, g1)
                  else if T = 0 then Inl ZeroDivisionError
                  else (case random_random g1 of (u, g2) \<Rightarrow>
                          if exp ((new_score - current_score) / T) > u
                          then Inr (new_schedule, new_score,
                                    if new_score > best_score then new_schedule else best_schedule,
                                    if new_score > best_score then new_score else best_score, g2)
                          else Inr (current_schedule, current_score, best_schedule, best_score,
                                    g2))))"

text \<open>
  The loop, with the cooling step \<^verbatim>\<open>T *= alpha\<close>. The last argument counts the turns;
  it is not a variable of the program. The loop ends because every turn lowers
  \<open>10000 T\<close> by more than 1 while \<open>T > T_min\<close>.
\<close>

function simulated_annealing_loop ::
  "Airplane list \<Rightarrow> DataFrame \<Rightarrow> real \<Rightarrow> DataFrame \<Rightarrow> real \<Rightarrow> real \<Rightarrow> rng \<Rightarrow> nat
     \<Rightarrow> error + (DataFrame \<times> real \<times> nat)" where
  "simulated_annealing_loop airplane_stream current_schedule current_score
       best_schedule best_score T g turns =
     (if T > T_min
      then (case simulated_annealing_iteration airplane_stream current_schedule current_score
                   best_schedule best_score T g of
              Inl e \<Rightarrow> Inl e
            | Inr (current_schedule', current_score', best_schedule', best_score', g') \<Rightarrow>
                simulated_annealing_loop airplane_stream current_schedule' current_score'
                  best_schedule' best_score' (T * alpha) g' (turns + 1))
      else Inr (best_schedule, best_score, turns))"
  by pat_completeness auto
termination
proof (relation "measure (\<lambda>(airplane_stream, current_schedule, current_score, best_schedule,
                  best_score, T, g, turns). nat \<lceil>10000 * T\<rceil>)", goal_cases)
  case 1
  show ?case by simp
next
  case (2 airplane_stream current_schedule current_score best_schedule best_score T g turns
      x2 x y xa ya xb yb xc yc)
  from \<open>T_min < T\<close> have T: "1 < 1000 * T"
    by (simp add: T_min_def)
  have "\<lceil>10000 * (T * alpha)\<rceil> < 9000 * T + 1"
    using ceiling_correct [of "9000 * T"] by (simp add: alpha_def)
  also have "\<dots> < 10000 * T" using T by simp
  also have "\<dots> \<le> \<lceil>10000 * T\<rceil>" by (rule le_of_int_ceiling)
  finally have "\<lceil>10000 * (T * alpha)\<rceil> < \<lceil>10000 * T\<rceil>" by simp
  moreover have "0 < \<lceil>10000 * T\<rceil>" using T by simp
  ultimately show ?case by simp
qed

declare simulated_annealing_loop.simps [simp del]

definition simulated_annealing_run ::
  "Airplane list \<Rightarrow> rng \<Rightarrow> error + (DataFrame \<times> real \<times> nat)" where
  "simulated_annealing_run airplane_stream g =
     (let current_schedule = calculate_score (schedule_landings airplane_stream) airplane_stream
      in case Score_sum current_schedule of
           Inl e \<Rightarrow> Inl e
         | Inr current_score \<Rightarrow>
             simulated_annealing_loop airplane_stream current_schedule current_score
               current_schedule current_score 1 g 0)"

definition simulated_annealing_schedule_landings ::
  "Airplane list \<Rightarrow> rng \<Rightarrow> error + (DataFrame \<times> real)" where
  "simulated_annealing_schedule_landings airplane_stream g =
     (case simulated_annealing_run airplane_stream g of
        Inl e \<Rightarrow> Inl e
      | Inr (best_schedule, best_score, turns) \<Rightarrow> Inr (best_schedule, best_score))"

subsection \<open>Example airplanes\<close>

text \<open>
  Airplanes as \<^verbatim>\<open>Airplane.__init__\<close> builds them, with a consumption rate of 10 and
  so an emergency fuel of 600. The first three carry 1300 units of fuel and are not
  urgent; \<open>plane_low\<close> carries exactly the emergency fuel, cannot stay airborne and is
  urgent; \<open>plane_mid\<close> carries 700 units.
\<close>

definition plane_A :: Airplane where
  "plane_A = \<lparr>id' = 1, fuel_consumption_rate = 10, expected_landing_time = 1,
      fuel_level = 1300, emergency_fuel = 600, fuel_level_final = 700,
      remaining_flying_time = 70, is_urgent = False\<rparr>"

definition plane_B :: Airplane where
  "plane_B = \<lparr>id' = 2, fuel_consumption_rate = 10, expected_landing_time = 2,
      fuel_level = 1300, emergency_fuel = 600, fuel_level_final = 700,
      remaining_flying_time = 70, is_urgent = False\<rparr>"

definition plane_C :: Airplane where
  "plane_C = \<lparr>id' = 3, fuel_consumption_rate = 10, expected_landing_time = 3,
      fuel_level = 1300, emergency_fuel = 600, fuel_level_final = 700,
      remaining_flying_time = 70, is_urgent = False\<rparr>"

definition plane_low :: Airplane where
  "plane_low = \<lparr>id' = 4, fuel_consumption_rate = 10, expected_landing_time = 1,
      fuel_level = 600, emergency_fuel = 600, fuel_level_final = 0,
      remaining_flying_time = 0, is_urgent = True\<rparr>"

definition plane_mid :: Airplane where
  "plane_mid = \<lparr>id' = 5, fuel_consumption_rate = 10, expected_landing_time = 5,
      fuel_level = 700, emergency_fuel = 600, fuel_level_final = 100,
      remaining_flying_time = 10, is_urgent = True\<rparr>"

text \<open>
  The schedule of \<open>plane_A\<close> and \<open>plane_B\<close> with its scores, and the same schedule
  with the two records exchanged.
\<close>

definition frame_AB :: DataFrame where
  "frame_AB = \<lparr>rows =
         [\<lparr>Airplane_ID = 1, Actual_Landing_Time = 1, Urgent = False,
             Landing_Strip = 1, Score = Some 1000\<rparr>,
          \<lparr>Airplane_ID = 2, Actual_Landing_Time = 2, Urgent = False,
             Landing_Strip = 2, Score = Some 1000\<rparr>],
         has_Score = True\<rparr>"

definition frame_BA :: DataFrame where
  "frame_BA = \<lparr>rows =
         [\<lparr>Airplane_ID = 2, Actual_Landing_Time = 2, Urgent = False,
             Landing_Strip = 2, Score = Some 1000\<rparr>,
          \<lparr>Airplane_ID = 1, Actual_Landing_Time = 1, Urgent = False,
             Landing_Strip = 1, Score = Some 1000\<rparr>],
         has_Score = True\<rparr>"

text \<open>
  The property of a frame that the search loops maintain: it has the column
  \<^verbatim>\<open>Score\<close> and \<open>n\<close> records.
\<close>

definition scored_frame :: "nat \<Rightarrow> DataFrame \<Rightarrow> bool" where
  "scored_frame n df = (has_Score df \<and> length (rows df) = n)"

section \<open>Airplane construction: the fuel invariants\<close>

lemma random_random_range:
  "0 \<le> fst (random_random g) \<and> fst (random_random g) < 1"
  by (simp add: random_random_def frac_lt_1)

lemma random_uniform_5_20_positive: "5 \<le> fst (random_uniform 5 20 g)"
  using random_random_range [of g]
  by (cases "random_random g") (simp add: random_uniform_def)

text \<open>
  Claim C3. Every construction of an airplane succeeds, whatever the random draws and the
  configured bounds are; the consumption rate is positive, the emergency fuel is 60 times
  the consumption rate, the fuel level is at least the emergency fuel, and the final fuel
  level is the fuel level minus the emergency fuel, which is not negative.
\<close>

theorem Airplane_init_fuel_invariants:
  "\<exists>a g'. Airplane_init i min_fuel max_fuel min_arrival_time max_arrival_time g = Inr (a, g')
     \<and> 0 < fuel_consumption_rate a
     \<and> emergency_fuel a = fuel_consumption_rate a * 60
     \<and> fuel_level_final a = fuel_level a - emergency_fuel a
     \<and> emergency_fuel a \<le> fuel_level a
     \<and> 0 \<le> fuel_level_final a"
proof -
  obtain rate g1 where r: "random_uniform 5 20 g = (rate, g1)"
    by (cases "random_uniform 5 20 g")
  obtain elt g2 where e: "random_uniform min_arrival_time max_arrival_time g1 = (elt, g2)"
    by (cases "random_uniform min_arrival_time max_arrival_time g1")
  obtain fl0 g3 where f: "random_uniform min_fuel max_fuel g2 = (fl0, g3)"
    by (cases "random_uniform min_fuel max_fuel g2")
  have pos: "5 \<le> rate"
    using random_uniform_5_20_positive [of g] r by simp
  then have nz: "rate \<noteq> 0" by simp
  show ?thesis
    using pos nz by (simp add: Airplane_init_def r e f Let_def)
qed

section \<open>The schedule builder\<close>

lemma schedule_loop_ids:
  "map Airplane_ID (schedule_loop aps avail idx sched) = map Airplane_ID sched @ map id' aps"
  by (induction aps arbitrary: avail idx sched) (simp_all add: Let_def)

lemma sorted_airplanes_mset:
  "mset (sort_key remaining_flying_time (filter is_urgent aps)
         @ sort_key expected_landing_time (filter (\<lambda>ap. \<not> is_urgent ap) aps)) = mset aps"
  by simp

text \<open>
  Claim C9. The schedule has exactly one record per airplane of the input list, and the
  airplane identifiers of its records are, as a multiset, the identifiers of the input
  list.
\<close>

theorem schedule_landings_ids:
  "length (rows (schedule_landings airplane_stream)) = length airplane_stream
   \<and> mset (map Airplane_ID (rows (schedule_landings airplane_stream)))
       = mset (map id' airplane_stream)"
proof -
  let ?sorted = "sort_key remaining_flying_time (filter is_urgent airplane_stream)
         @ sort_key expected_landing_time (filter (\<lambda>ap. \<not> is_urgent ap) airplane_stream)"
  have ids: "map Airplane_ID (rows (schedule_landings airplane_stream)) = map id' ?sorted"
    by (simp add: schedule_landings_def Let_def schedule_loop_ids del: map_append)
  have m: "mset (map id' ?sorted) = mset (map id' airplane_stream)"
    using sorted_airplanes_mset [of airplane_stream]
    by (metis mset_map)
  from ids m have eq: "mset (map Airplane_ID (rows (schedule_landings airplane_stream)))
       = mset (map id' airplane_stream)"
    by simp
  have "length (map Airplane_ID (rows (schedule_landings airplane_stream)))
          = length (map id' airplane_stream)"
    by (rule mset_eq_length [OF eq])
  then have "length (rows (schedule_landings airplane_stream)) = length airplane_stream"
    by simp
  with eq show ?thesis by simp
qed


text \<open>
  The constructor establishes the relations between the fuel fields, and the loops that
  recompute the urgency flags keep them.
\<close>

lemma Airplane_init_construction_invariants:
  assumes "Airplane_init i min_fuel max_fuel min_arrival_time max_arrival_time g = Inr (a, g')"
  shows "construction_invariants a"
proof -
  obtain rate g1 where r: "random_uniform 5 20 g = (rate, g1)"
    by (cases "random_uniform 5 20 g")
  obtain elt g2 where e: "random_uniform min_arrival_time max_arrival_time g1 = (elt, g2)"
    by (cases "random_uniform min_arrival_time max_arrival_time g1")
  obtain fl0 g3 where f: "random_uniform min_fuel max_fuel g2 = (fl0, g3)"
    by (cases "random_uniform min_fuel max_fuel g2")
  have pos: "5 \<le> rate"
    using random_uniform_5_20_positive [of g] r by simp
  then have nz: "rate \<noteq> 0" by simp
  from assms nz have "a = \<lparr>id' = i, fuel_consumption_rate = rate, expected_landing_time = elt,
      fuel_level = max fl0 (rate * 60), emergency_fuel = rate * 60,
      fuel_level_final = max fl0 (rate * 60) - rate * 60,
      remaining_flying_time = (max fl0 (rate * 60) - rate * 60) / rate,
      is_urgent = (max fl0 (rate * 60) - rate * 60 < rate * 60
                   \<or> (max fl0 (rate * 60) - rate * 60) / rate < 1)\<rparr>"
    by (simp add: Airplane_init_def r e f Let_def)
  then show ?thesis
    using pos by (simp add: construction_invariants_def)
qed

lemma mark_urgent_construction_invariants:
  "list_all construction_invariants aps \<Longrightarrow>
   list_all construction_invariants (hill_climbing_mark_urgent aps)
   \<and> list_all construction_invariants (tabu_search_mark_urgent aps)"
  by (simp add: hill_climbing_mark_urgent_def tabu_search_mark_urgent_def list_all_iff
      construction_invariants_def)

lemma construction_invariants_remaining:
  "construction_invariants a \<Longrightarrow> 0 \<le> remaining_flying_time a"
  by (simp add: construction_invariants_def)

lemma list_all_update: "list_all P xs \<Longrightarrow> P v \<Longrightarrow> list_all P (xs[i := v])"
  unfolding list_all_iff using set_update_subset_insert [of xs i v] by fastforce

lemma schedule_loop_nonneg:
  "list_all (\<lambda>a. 0 \<le> remaining_flying_time a) aps \<Longrightarrow>
   list_all (\<lambda>t. 0 \<le> t) avail \<Longrightarrow> length avail = 3 \<Longrightarrow>
   list_all (\<lambda>r. 0 \<le> Actual_Landing_Time r) sched \<Longrightarrow>
   list_all (\<lambda>r. 0 \<le> Actual_Landing_Time r) (schedule_loop aps avail idx sched)"
proof (induction aps arbitrary: avail idx sched)
  case Nil
  then show ?case by simp
next
  case (Cons a aps)
  define c where "c = idx mod 3"
  define t where "t = max (expected_landing_time a) (avail ! c + 3 / 60)"
  define alt where
    "alt = (if is_urgent a \<and> t > remaining_flying_time a then remaining_flying_time a else t)"
  have step: "schedule_loop (a # aps) avail idx sched =
      schedule_loop aps (avail[c := alt + 3]) (idx + 1)
        (sched @ [\<lparr>Airplane_ID = id' a, Actual_Landing_Time = alt,
                Urgent = is_urgent a, Landing_Strip = c + 1, Score = None\<rparr>])"
    by (simp add: Let_def alt_def t_def c_def)
  have "c < length avail" using Cons.prems(3) by (simp add: c_def)
  then have "0 \<le> avail ! c"
    using Cons.prems(2) by (simp add: list_all_length)
  then have "0 \<le> t" by (simp add: t_def)
  then have alt: "0 \<le> alt" using Cons.prems(1) by (simp add: alt_def)
  then have "0 \<le> alt + 3" by linarith
  with Cons.prems(2) have avail': "list_all (\<lambda>t. 0 \<le> t) (avail[c := alt + 3])"
    by (rule list_all_update)
  show ?case
    unfolding step
    using Cons.prems alt avail' by (intro Cons.IH) simp_all
qed

text \<open>
  Claim C4. When every airplane of the input list satisfies the relations established at
  construction (positive consumption rate, fuel level at least the emergency fuel), no
  record of the schedule built by \<^verbatim>\<open>schedule_landings\<close> has a negative actual
  landing time; this covers the records of urgent airplanes whose landing time is cut
  down to their remaining flying time.
\<close>

theorem schedule_landings_nonneg:
  assumes "list_all construction_invariants airplane_stream"
  shows "list_all (\<lambda>r. 0 \<le> Actual_Landing_Time r) (rows (schedule_landings airplane_stream))"
proof -
  let ?sorted = "sort_key remaining_flying_time (filter is_urgent airplane_stream)
         @ sort_key expected_landing_time (filter (\<lambda>ap. \<not> is_urgent ap) airplane_stream)"
  have "list_all (\<lambda>a. 0 \<le> remaining_flying_time a) ?sorted"
    using assms by (auto simp: list_all_iff construction_invariants_remaining)
  then have "list_all (\<lambda>r. 0 \<le> Actual_Landing_Time r) (schedule_loop ?sorted [0, 0, 0] 0 [])"
    by (rule schedule_loop_nonneg) simp_all
  then show ?thesis by (simp add: schedule_landings_def Let_def)
qed

theorem schedule_landings_nonneg_witness:
  "list_all construction_invariants [plane_low, plane_A]
   \<and> list_all (\<lambda>r. 0 \<le> Actual_Landing_Time r) (rows (schedule_landings [plane_low, plane_A]))
   \<and> Actual_Landing_Time (hd (rows (schedule_landings [plane_low, plane_A])))
         = remaining_flying_time plane_low"
proof -
  have h: "list_all construction_invariants [plane_low, plane_A]"
    by (simp add: construction_invariants_def plane_low_def plane_A_def)
  have "Actual_Landing_Time (hd (rows (schedule_landings [plane_low, plane_A])))
         = remaining_flying_time plane_low"
    by (simp add: schedule_landings_def plane_low_def plane_A_def Let_def)
  with h schedule_landings_nonneg [OF h] show ?thesis by simp
qed

section \<open>The worked example of three airplanes\<close>

lemma lookup_airplane_distinct:
  "distinct (map id' aps) \<Longrightarrow> a \<in> set aps \<Longrightarrow> lookup_airplane aps (id' a) = Some a"
  unfolding lookup_airplane_def
  by (induction aps) (auto simp: image_iff)

lemma filter_three:
  assumes "mset xs = {#a1, a2, a3#}" "P a1" "\<not> P a2" "\<not> P a3"
  shows "filter P xs = [a1]"
proof -
  have "filter_mset P (mset xs) = {#a1#}"
    using assms by simp
  then have "mset (filter P xs) = {#a1#}"
    by (simp only: mset_filter)
  then show ?thesis by (simp only: mset_single_iff)
qed

lemma sort_three:
  fixes a1 a2 a3 :: Airplane
  assumes m: "mset xs = {#a1, a2, a3#}"
    and e: "expected_landing_time a1 = 1" "expected_landing_time a2 = 2" "expected_landing_time a3 = 3"
  shows "sort_key expected_landing_time xs = [a1, a2, a3]"
proof (rule properties_for_sort_key)
  show "mset [a1, a2, a3] = mset xs" using m by simp
next
  fix k assume "k \<in> set [a1, a2, a3]"
  then consider "k = a1" | "k = a2" | "k = a3" by auto
  then show "filter (\<lambda>x. expected_landing_time k = expected_landing_time x) [a1, a2, a3]
           = filter (\<lambda>x. expected_landing_time k = expected_landing_time x) xs"
  proof cases
    case 1
    have "filter (\<lambda>x. expected_landing_time k = expected_landing_time x) xs = [a1]"
      by (rule filter_three [OF m]) (simp_all add: 1 e)
    then show ?thesis by (simp add: 1 e)
  next
    case 2
    have m': "mset xs = {#a2, a1, a3#}" using m by (simp add: add_mset_commute)
    have "filter (\<lambda>x. expected_landing_time k = expected_landing_time x) xs = [a2]"
      by (rule filter_three [OF m']) (simp_all add: 2 e)
    then show ?thesis by (simp add: 2 e)
  next
    case 3
    have m': "mset xs = {#a3, a1, a2#}" using m by (simp add: add_mset_commute)
    have "filter (\<lambda>x. expected_landing_time k = expected_landing_time x) xs = [a3]"
      by (rule filter_three [OF m']) (simp_all add: 3 e)
    then show ?thesis by (simp add: 3 e)
  qed
next
  show "sorted (map expected_landing_time [a1, a2, a3])" by (simp add: e)
qed

lemma evaluate_loop_append:
  "evaluate_loop (xs @ ys) aps df = evaluate_loop ys aps (evaluate_loop xs aps df)"
  by (induction xs arbitrary: df) (auto simp: Let_def split: option.splits)

text \<open>
  Claim C2. A batch of exactly three airplanes that are not urgent, with expected landing
  times 1, 2 and 3 hours and distinct identifiers, given in any order: the strips start
  free at time 0, and \<^verbatim>\<open>schedule_landings\<close> gives the three airplanes the strips 1, 2
  and 3 in the order of their expected landing times, each landing at its expected time.
  \<^verbatim>\<open>evaluate_landing_schedule\<close> then writes the score 1000 into each record and
  returns the total 3000.
\<close>

theorem schedule_landings_three_planes:
  assumes batch: "mset airplane_stream = {#a1, a2, a3#}"
    and non_urgent: "\<not> is_urgent a1" "\<not> is_urgent a2" "\<not> is_urgent a3"
    and times: "expected_landing_time a1 = 1" "expected_landing_time a2 = 2"
      "expected_landing_time a3 = 3"
    and ids: "distinct [id' a1, id' a2, id' a3]"
  shows "schedule_landings airplane_stream =
           \<lparr>rows = [\<lparr>Airplane_ID = id' a1, Actual_Landing_Time = 1, Urgent = False,
                       Landing_Strip = 1, Score = None\<rparr>,
                    \<lparr>Airplane_ID = id' a2, Actual_Landing_Time = 2, Urgent = False,
                       Landing_Strip = 2, Score = None\<rparr>,
                    \<lparr>Airplane_ID = id' a3, Actual_Landing_Time = 3, Urgent = False,
                       Landing_Strip = 3, Score = None\<rparr>],
             has_Score = False\<rparr>
         \<and> evaluate_landing_schedule (schedule_landings airplane_stream) airplane_stream =
           Inr (\<lparr>rows = [\<lparr>Airplane_ID = id' a1, Actual_Landing_Time = 1, Urgent = False,
                            Landing_Strip = 1, Score = Some 1000\<rparr>,
                         \<lparr>Airplane_ID = id' a2, Actual_Landing_Time = 2, Urgent = False,
                            Landing_Strip = 2, Score = Some 1000\<rparr>,
                         \<lparr>Airplane_ID = id' a3, Actual_Landing_Time = 3, Urgent = False,
                            Landing_Strip = 3, Score = Some 1000\<rparr>],
                  has_Score = True\<rparr>, 3000)"
proof -
  have set_eq: "set airplane_stream = {a1, a2, a3}"
    using batch by (metis set_mset_mset set_mset_add_mset_insert set_mset_empty)
  have all_non_urgent: "filter (\<lambda>ap. \<not> is_urgent ap) airplane_stream = airplane_stream"
    using set_eq non_urgent by (auto simp: filter_id_conv)
  have none_urgent: "filter is_urgent airplane_stream = []"
    using set_eq non_urgent by (auto simp: filter_empty_conv)
  have sorted_airplanes:
    "sort_key expected_landing_time airplane_stream = [a1, a2, a3]"
    using batch times by (rule sort_three)
  have sched: "schedule_landings airplane_stream =
           \<lparr>rows = [\<lparr>Airplane_ID = id' a1, Actual_Landing_Time = 1, Urgent = False,
                       Landing_Strip = 1, Score = None\<rparr>,
                    \<lparr>Airplane_ID = id' a2, Actual_Landing_Time = 2, Urgent = False,
                       Landing_Strip = 2, Score = None\<rparr>,
                    \<lparr>Airplane_ID = id' a3, Actual_Landing_Time = 3, Urgent = False,
                       Landing_Strip = 3, Score = None\<rparr>],
             has_Score = False\<rparr>"
    by (simp add: schedule_landings_def all_non_urgent none_urgent sorted_airplanes Let_def
        non_urgent times)
  have "distinct (map id' airplane_stream)"
  proof -
    have "mset (map id' airplane_stream) = mset [id' a1, id' a2, id' a3]"
      by (simp add: batch)
    from mset_eq_imp_distinct_iff [OF this] show ?thesis using ids by blast
  qed
  then have look: "lookup_airplane airplane_stream (id' a1) = Some a1"
    "lookup_airplane airplane_stream (id' a2) = Some a2"
    "lookup_airplane airplane_stream (id' a3) = Some a3"
    using set_eq by (simp_all add: lookup_airplane_distinct)
  show ?thesis
    unfolding sched
    by (simp add: evaluate_landing_schedule_def iterrows_def upt_rec [of 0 3] upt_rec [of 1 3]
        upt_rec [of 2 3] look times non_urgent at_set_Score_def Score_sum_def Let_def)
qed

theorem schedule_landings_three_planes_witness:
  "schedule_landings [plane_C, plane_A, plane_B] =
           \<lparr>rows = [\<lparr>Airplane_ID = 1, Actual_Landing_Time = 1, Urgent = False,
                       Landing_Strip = 1, Score = None\<rparr>,
                    \<lparr>Airplane_ID = 2, Actual_Landing_Time = 2, Urgent = False,
                       Landing_Strip = 2, Score = None\<rparr>,
                    \<lparr>Airplane_ID = 3, Actual_Landing_Time = 3, Urgent = False,
                       Landing_Strip = 3, Score = None\<rparr>],
             has_Score = False\<rparr>
   \<and> map_sum id snd (evaluate_landing_schedule (schedule_landings [plane_C, plane_A, plane_B])
         [plane_C, plane_A, plane_B]) = Inr 3000"
proof -
  have batch: "mset [plane_C, plane_A, plane_B] = {#plane_A, plane_B, plane_C#}"
    by simp
  have ids: "distinct [id' plane_A, id' plane_B, id' plane_C]"
    by (simp add: plane_A_def plane_B_def plane_C_def)
  note three = schedule_landings_three_planes [OF batch _ _ _ _ _ _ ids]
  have nu: "\<not> is_urgent plane_A" "\<not> is_urgent plane_B" "\<not> is_urgent plane_C"
    and ts: "expected_landing_time plane_A = 1" "expected_landing_time plane_B = 2"
      "expected_landing_time plane_C = 3"
    by (simp_all add: plane_A_def plane_B_def plane_C_def)
  have sched: "schedule_landings [plane_C, plane_A, plane_B] =
           \<lparr>rows = [\<lparr>Airplane_ID = 1, Actual_Landing_Time = 1, Urgent = False,
                       Landing_Strip = 1, Score = None\<rparr>,
                    \<lparr>Airplane_ID = 2, Actual_Landing_Time = 2, Urgent = False,
                       Landing_Strip = 2, Score = None\<rparr>,
                    \<lparr>Airplane_ID = 3, Actual_Landing_Time = 3, Urgent = False,
                       Landing_Strip = 3, Score = None\<rparr>],
             has_Score = False\<rparr>"
    using three [OF nu ts, THEN conjunct1]
    by (simp add: plane_A_def plane_B_def plane_C_def)
  have "map_sum id snd (evaluate_landing_schedule (schedule_landings [plane_C, plane_A, plane_B])
         [plane_C, plane_A, plane_B]) = Inr 3000"
    unfolding three [OF nu ts, THEN conjunct2] by simp
  with sched show ?thesis by (rule conjI)
qed

section \<open>The exhaustive successor generator\<close>

lemma get_successors_inner_eq:
  "i < length (rows df) \<Longrightarrow> list_all (\<lambda>j. j < length (rows df)) js \<Longrightarrow>
   get_successors_inner df i js successors
     = Inr (successors @ map (\<lambda>j. df\<lparr>rows := (rows df)[i := rows df ! j, j := rows df ! i]\<rparr>) js)"
  by (induction js arbitrary: successors) (simp_all add: swap_iloc_def Let_def)

lemma get_successors_outer_eq:
  "list_all (\<lambda>i. i < length (rows df)) is \<Longrightarrow>
   get_successors_outer df is successors
     = Inr (successors @ concat (map (\<lambda>i. map (\<lambda>j. df\<lparr>rows := (rows df)[i := rows df ! j, j := rows df ! i]\<rparr>)
          [i + 1..<length (rows df)]) is))"
  by (induction "is" arbitrary: successors)
     (simp_all add: get_successors_inner_eq list_all_iff)

lemma sum_pairs: 
  "m \<le> n \<Longrightarrow> 2 * sum_list (map (\<lambda>i. n - Suc i) [0..<m]) + m * (m + 1) = 2 * m * n"
proof (induction m)
  case 0 then show ?case by simp
next
  case (Suc m)
  then have "2 * sum_list (map (\<lambda>i. n - Suc i) [0..<m]) + m * (m + 1) = 2 * m * n" by simp
  moreover have "n - Suc m + Suc m = n" using Suc.prems by simp
  ultimately show ?case by (simp add: algebra_simps)
qed

lemma length_pairs: 
  "length (concat (map (\<lambda>i. map (f i) [i + 1..<n]) [0..<n])) = n * (n - 1) div 2"
proof -
  have "length (concat (map (\<lambda>i. map (f i) [i + 1..<n]) [0..<n]))
      = sum_list (map (\<lambda>i. n - Suc i) [0..<n])"
    by (simp add: length_concat comp_def)
  moreover have "2 * sum_list (map (\<lambda>i. n - Suc i) [0..<n]) + n * (n + 1) = 2 * n * n"
    by (rule sum_pairs) simp
  moreover have "n * (n - 1) + n * (n + 1) = 2 * n * n"
    by (cases n) (simp_all add: algebra_simps)
  ultimately show ?thesis by simp
qed

lemma in_concat_map:
  "i \<in> set xs \<Longrightarrow> j \<in> set (g i) \<Longrightarrow> f i j \<in> set (concat (map (\<lambda>i. map (f i) (g i)) xs))"
  by auto

lemma get_successors_eq:
  "2 \<le> length (rows df) \<Longrightarrow>
   get_successors df airplane_stream
     = Inr (concat (map (\<lambda>i. map (\<lambda>j. df\<lparr>rows := (rows df)[i := rows df ! j, j := rows df ! i]\<rparr>)
          [i + 1..<length (rows df)]) [0..<length (rows df)]))"
  by (simp add: get_successors_def get_successors_outer_eq list_all_iff)

text \<open>
  Claim C5. On a schedule of at most one record \<^verbatim>\<open>get_successors\<close> returns the list
  whose only element is that schedule. On a schedule of \<open>n \<ge> 2\<close> records it returns
  \<open>n (n - 1) / 2\<close> successors; each of them is the input with the records at two
  positions \<open>i < j\<close> exchanged and nothing else changed (no landing time and no score
  is computed again), and every such pair of positions gives one of the successors.
\<close>

theorem get_successors_pairs:
  "(length (rows df) \<le> 1 \<longrightarrow> get_successors df airplane_stream = Inr [df])
   \<and> (2 \<le> length (rows df) \<longrightarrow>
       (\<exists>successors. get_successors df airplane_stream = Inr successors
          \<and> length successors = length (rows df) * (length (rows df) - 1) div 2
          \<and> (\<forall>s \<in> set successors. \<exists>i j. i < j \<and> j < length (rows df)
                 \<and> s = df\<lparr>rows := (rows df)[i := rows df ! j, j := rows df ! i]\<rparr>)
          \<and> (\<forall>i j. i < j \<and> j < length (rows df) \<longrightarrow>
                 df\<lparr>rows := (rows df)[i := rows df ! j, j := rows df ! i]\<rparr> \<in> set successors)))"
proof (intro conjI impI)
  assume "length (rows df) \<le> 1"
  then show "get_successors df airplane_stream = Inr [df]"
    by (simp add: get_successors_def)
next
  assume n: "2 \<le> length (rows df)"
  let ?succ = "concat (map (\<lambda>i. map (\<lambda>j. df\<lparr>rows := (rows df)[i := rows df ! j, j := rows df ! i]\<rparr>)
          [i + 1..<length (rows df)]) [0..<length (rows df)])"
  have 1: "get_successors df airplane_stream = Inr ?succ"
    using n by (rule get_successors_eq)
  have 2: "length ?succ = length (rows df) * (length (rows df) - 1) div 2"
    by (rule length_pairs)
  have 3: "\<forall>s \<in> set ?succ. \<exists>i j. i < j \<and> j < length (rows df)
                 \<and> s = df\<lparr>rows := (rows df)[i := rows df ! j, j := rows df ! i]\<rparr>"
  proof
    fix s assume "s \<in> set ?succ"
    then obtain i j where "i < length (rows df)" "Suc i \<le> j" "j < length (rows df)"
      "s = df\<lparr>rows := (rows df)[i := rows df ! j, j := rows df ! i]\<rparr>"
      by auto
    then have "i < j \<and> j < length (rows df)
        \<and> s = df\<lparr>rows := (rows df)[i := rows df ! j, j := rows df ! i]\<rparr>"
      by simp
    then show "\<exists>i j. i < j \<and> j < length (rows df)
                 \<and> s = df\<lparr>rows := (rows df)[i := rows df ! j, j := rows df ! i]\<rparr>"
      by blast
  qed
  have 4: "\<forall>i j. i < j \<and> j < length (rows df) \<longrightarrow>
                 df\<lparr>rows := (rows df)[i := rows df ! j, j := rows df ! i]\<rparr> \<in> set ?succ"
  proof (intro allI impI)
    fix i j assume ij: "i < j \<and> j < length (rows df)"
    then have "i \<in> set [0..<length (rows df)]" and "j \<in> set [i + 1..<length (rows df)]"
      by simp_all
    then show "df\<lparr>rows := (rows df)[i := rows df ! j, j := rows df ! i]\<rparr> \<in> set ?succ"
      by (rule in_concat_map)
  qed
  show "\<exists>successors. get_successors df airplane_stream = Inr successors
          \<and> length successors = length (rows df) * (length (rows df) - 1) div 2
          \<and> (\<forall>s \<in> set successors. \<exists>i j. i < j \<and> j < length (rows df)
                 \<and> s = df\<lparr>rows := (rows df)[i := rows df ! j, j := rows df ! i]\<rparr>)
          \<and> (\<forall>i j. i < j \<and> j < length (rows df) \<longrightarrow>
                 df\<lparr>rows := (rows df)[i := rows df ! j, j := rows df ! i]\<rparr> \<in> set successors)"
    by (intro exI [of _ ?succ] conjI 1 2 3 4)
qed

lemma schedule_landings_length:
  "length (rows (schedule_landings airplane_stream)) = length airplane_stream"
proof -
  have "length (map Airplane_ID (rows (schedule_landings airplane_stream)))
      = length (sort_key remaining_flying_time (filter is_urgent airplane_stream))
        + length (sort_key expected_landing_time
                    (filter (\<lambda>ap. \<not> is_urgent ap) airplane_stream))"
    by (simp add: schedule_landings_def Let_def schedule_loop_ids)
  also have "\<dots> = length airplane_stream"
    by (simp add: sum_length_filter_compl)
  finally show ?thesis by simp
qed

theorem get_successors_pairs_witness:
  "length (rows (schedule_landings [plane_A])) \<le> 1
   \<and> get_successors (schedule_landings [plane_A]) [plane_A] = Inr [schedule_landings [plane_A]]
   \<and> 2 \<le> length (rows (schedule_landings [plane_A, plane_B, plane_C]))
   \<and> (\<exists>successors.
         get_successors (schedule_landings [plane_A, plane_B, plane_C]) [plane_A, plane_B, plane_C]
           = Inr successors
         \<and> length successors = 3)"
proof -
  define df1 where "df1 = schedule_landings [plane_A]"
  define df3 where "df3 = schedule_landings [plane_A, plane_B, plane_C]"
  have one: "length (rows df1) \<le> 1"
    by (simp add: df1_def schedule_landings_length)
  have three: "length (rows df3) = 3"
    by (simp add: df3_def schedule_landings_length)
  then have two: "2 \<le> length (rows df3)"
    by simp
  have a: "get_successors df1 [plane_A] = Inr [df1]"
    using get_successors_pairs [of df1 "[plane_A]", THEN conjunct1] one by (rule mp)
  have "\<exists>successors. get_successors df3 [plane_A, plane_B, plane_C] = Inr successors
          \<and> length successors = length (rows df3) * (length (rows df3) - 1) div 2
          \<and> (\<forall>s \<in> set successors. \<exists>i j. i < j \<and> j < length (rows df3)
                 \<and> s = df3\<lparr>rows := (rows df3)[i := rows df3 ! j, j := rows df3 ! i]\<rparr>)
          \<and> (\<forall>i j. i < j \<and> j < length (rows df3) \<longrightarrow>
                 df3\<lparr>rows := (rows df3)[i := rows df3 ! j, j := rows df3 ! i]\<rparr> \<in> set successors)"
    using get_successors_pairs [of df3 "[plane_A, plane_B, plane_C]", THEN conjunct2] two
    by (rule mp)
  then obtain successors where
    s: "get_successors df3 [plane_A, plane_B, plane_C] = Inr successors"
    and l: "length successors = length (rows df3) * (length (rows df3) - 1) div 2"
    by (elim exE conjE)
  from l have "length successors = 3" by (simp add: three)
  with s have b: "\<exists>successors. get_successors df3 [plane_A, plane_B, plane_C] = Inr successors
         \<and> length successors = 3"
    by (intro exI [of _ successors] conjI)
  from one a two b show ?thesis
    unfolding df1_def df3_def by (intro conjI)
qed

section \<open>The urgency flags of hill climbing and tabu search\<close>

lemma plane_mid_constructed:
  "Airplane_init 5 700 700 5 5 (\<lambda>n. 1 / 3) = Inr (plane_mid, (\<lambda>n. 1 / 3))"
proof -
  have "frac (1 / 3 :: real) = 1 / 3"
    by (simp add: frac_eq)
  then show ?thesis
    by (simp add: Airplane_init_def random_uniform_def random_random_def plane_mid_def Let_def)
qed

text \<open>
  Claim C1, as amended. After the loop that opens hill climbing, and after the one that
  opens tabu search, an airplane is urgent exactly when its final fuel level is below its
  emergency fuel or its remaining flying time is below its expected landing time; no
  other field of the airplane changes.
\<close>

theorem mark_urgent_formula:
  "map is_urgent (hill_climbing_mark_urgent airplane_stream)
     = map (\<lambda>a. fuel_level_final a < emergency_fuel a
                 \<or> remaining_flying_time a < expected_landing_time a) airplane_stream
   \<and> map is_urgent (tabu_search_mark_urgent airplane_stream)
     = map (\<lambda>a. fuel_level_final a < emergency_fuel a
                 \<or> remaining_flying_time a < expected_landing_time a) airplane_stream
   \<and> map (\<lambda>a. a\<lparr>is_urgent := u\<rparr>) (hill_climbing_mark_urgent airplane_stream)
     = map (\<lambda>a. a\<lparr>is_urgent := u\<rparr>) airplane_stream
   \<and> map (\<lambda>a. a\<lparr>is_urgent := u\<rparr>) (tabu_search_mark_urgent airplane_stream)
     = map (\<lambda>a. a\<lparr>is_urgent := u\<rparr>) airplane_stream"
  by (simp add: hill_climbing_mark_urgent_def tabu_search_mark_urgent_def comp_def)

text \<open>
  The claim as it was stated, with the comparison of the remaining flying time and the
  expected landing time as the only condition, fails on \<open>plane_mid\<close>: it can stay
  airborne for 10 hours and is expected after 5, and both loops mark it urgent, since
  its final fuel level of 100 is below its emergency fuel of 600.
\<close>

theorem mark_urgent_counterexample:
  "\<not> (list_all (\<lambda>a. is_urgent a = (remaining_flying_time a < expected_landing_time a))
         (hill_climbing_mark_urgent [plane_mid])
       \<or> list_all (\<lambda>a. is_urgent a = (remaining_flying_time a < expected_landing_time a))
         (tabu_search_mark_urgent [plane_mid]))"
  by (simp add: hill_climbing_mark_urgent_def tabu_search_mark_urgent_def plane_mid_def)

section \<open>The score evaluator\<close>

lemma evaluate_loop_rows_gen:
  "rows df = pre @ rs \<Longrightarrow> length pre = k \<Longrightarrow>
   rows (evaluate_loop (zip [k..<k + length rs] rs) aps df) = pre @ map (score_row aps) rs"
proof (induction rs arbitrary: pre k df)
  case Nil
  then show ?case by simp
next
  case (Cons r rs)
  have z: "zip [k..<k + length (r # rs)] (r # rs) = (k, r) # zip [Suc k..<Suc k + length rs] rs"
  proof -
    have "[k..<k + length (r # rs)] = k # [Suc k..<Suc k + length rs]"
      by (simp add: upt_conv_Cons del: upt_Suc)
    then show ?thesis by simp
  qed
  show ?case
  proof (cases "lookup_airplane aps (Airplane_ID r)")
    case None
    have "rows (evaluate_loop (zip [Suc k..<Suc k + length rs] rs) aps df)
        = (pre @ [r]) @ map (score_row aps) rs"
      by (rule Cons.IH) (simp_all add: Cons.prems)
    then show ?thesis
      unfolding z by (simp add: None score_row_def)
  next
    case (Some a)
    define sc where "sc = 1000 - \<bar>expected_landing_time a - Actual_Landing_Time r\<bar>
                                   - (if is_urgent a then 100 else 0)"
    have "rows (evaluate_loop (zip [Suc k..<Suc k + length rs] rs) aps (at_set_Score df k sc))
        = (pre @ [r\<lparr>Score := Some sc\<rparr>]) @ map (score_row aps) rs"
      by (rule Cons.IH) (simp_all add: Cons.prems at_set_Score_def nth_append list_update_append)
    then show ?thesis
      unfolding z by (simp add: Some score_row_def sc_def Let_def)
  qed
qed

lemma evaluate_loop_rows:
  "rows (evaluate_loop (iterrows df) aps df) = map (score_row aps) (rows df)"
  using evaluate_loop_rows_gen [of df "[]" "rows df" 0 aps]
  by (simp add: iterrows_def)

lemma evaluate_loop_has_Score:
  "has_Score (evaluate_loop irs aps df)
     = (has_Score df \<or> (\<exists>ir \<in> set irs. lookup_airplane aps (Airplane_ID (snd ir)) \<noteq> None))"
  by (induction irs aps df rule: evaluate_loop.induct)
     (auto simp: at_set_Score_def Let_def split: option.splits)

text \<open>
  When the frame already has the column \<^verbatim>\<open>Score\<close>, or at least one of its records
  has its airplane in the stream, the evaluator returns: every record whose airplane is
  in the stream gets the score \<open>1000 - |expected - actual| - penalty\<close>, and every
  other record is left as it was.
\<close>

lemma evaluate_landing_schedule_scores:
  assumes "has_Score df \<or> (\<exists>r \<in> set (rows df). lookup_airplane aps (Airplane_ID r) \<noteq> None)"
  shows "\<exists>total. evaluate_landing_schedule df aps
           = Inr (df\<lparr>rows := map (score_row aps) (rows df), has_Score := True\<rparr>, total)"
proof -
  let ?df = "evaluate_loop (iterrows df) aps df"
  have "map snd (iterrows df) = rows df" by (simp add: iterrows_def)
  then have "set (rows df) = snd ` set (iterrows df)" by (metis set_map)
  with assms have "has_Score df
      \<or> (\<exists>ir \<in> set (iterrows df). lookup_airplane aps (Airplane_ID (snd ir)) \<noteq> None)"
    by (simp only: bex_simps image_iff)
  then have h: "has_Score ?df" by (simp add: evaluate_loop_has_Score)
  have "?df = df\<lparr>rows := map (score_row aps) (rows df), has_Score := True\<rparr>"
    using h by (simp add: evaluate_loop_rows)
  with h show ?thesis
    by (simp add: evaluate_landing_schedule_def Score_sum_def Let_def)
qed


text \<open>
  Claim C8. The loop of \<^verbatim>\<open>evaluate_landing_schedule\<close> skips a record whose airplane is
  not in the stream and writes the score of every other record, as the lemma above
  says. The total is then read from the column \<^verbatim>\<open>Score\<close>: on a frame that has no such
  column and none of whose records matches, the function raises \<^verbatim>\<open>KeyError\<close>. Here
  the schedule of \<open>plane_A\<close> is evaluated against a stream that holds only
  \<open>plane_B\<close>.
\<close>

theorem evaluate_no_match_KeyError:
  "evaluate_landing_schedule (schedule_landings [plane_A]) [plane_B] = Inl KeyError"
  by (simp add: evaluate_landing_schedule_def schedule_landings_def iterrows_def
      lookup_airplane_def Score_sum_def plane_A_def plane_B_def Let_def)

section \<open>Hill climbing\<close>

lemma hill_climbing_loop_result:
  assumes "hill_climbing_loop airplane_stream0 df0 current_score0 scores0 g0 = Some y0"
  shows "case y0 of Inl e \<Rightarrow> True | Inr (df', scores') \<Rightarrow> scores' = scores0"
proof (rule hill_climbing_loop.raw_induct
    [where P = "\<lambda>airplane_stream df current_score scores g y.
                  case y of Inl e \<Rightarrow> True | Inr (df', scores') \<Rightarrow> scores' = scores",
     OF _ assms], goal_cases)
  case (1 loop airplane_stream df current_score scores g y)
  show ?case
  proof (cases "get_Hill_Tabu_successors df airplane_stream 15 g")
    case (Inl e)
    with 1(2) show ?thesis by auto
  next
    case (Inr ng)
    obtain neighbors g' where ng: "ng = (neighbors, g')" by (cases ng)
    show ?thesis
    proof (cases "hill_climbing_neighbors neighbors airplane_stream df current_score")
      case (Inl e)
      with 1(2) Inr ng show ?thesis by auto
    next
      case (Inr nn)
      obtain next_state_df next_score where nn: "nn = (next_state_df, next_score)" by (cases nn)
      show ?thesis
      proof (cases "next_score = current_score")
        case True
        with 1(2) \<open>get_Hill_Tabu_successors df airplane_stream 15 g = Inr ng\<close> ng Inr nn
        show ?thesis by auto
      next
        case False
        with 1(2) \<open>get_Hill_Tabu_successors df airplane_stream 15 g = Inr ng\<close> ng Inr nn
        have "loop airplane_stream next_state_df next_score scores g' = Some y" by simp
        then show ?thesis by (rule 1(1))
      qed
    qed
  qed
qed

lemma hill_climbing_loop_scores:
  "hill_climbing_loop airplane_stream df current_score scores g = Some (Inr (df', scores'))
   \<Longrightarrow> scores' = scores"
  using hill_climbing_loop_result [of airplane_stream df current_score scores g "Inr (df', scores')"]
  by simp

text \<open>
  Claim C10. Whenever \<^verbatim>\<open>hill_climbing_schedule_landings\<close> returns a pair, on any
  stream of airplanes and any sequence of random draws, the list of scores in that pair
  is empty: the loop hands \<^verbatim>\<open>scores\<close> on unchanged from turn to turn.
\<close>

theorem hill_climbing_scores_empty:
  assumes "hill_climbing_schedule_landings airplane_stream g
             = Some (Inr (landing_schedule_df, scores))"
  shows "scores = []"
proof (cases "evaluate_landing_schedule (schedule_landings (hill_climbing_mark_urgent airplane_stream))
                (hill_climbing_mark_urgent airplane_stream)")
  case (Inl e)
  with assms show ?thesis
    by (simp add: hill_climbing_schedule_landings_def Let_def)
next
  case (Inr r)
  obtain df current_score where r: "r = (df, current_score)" by (cases r)
  from assms Inr r
  have "hill_climbing_loop (hill_climbing_mark_urgent airplane_stream) df current_score [] g
          = Some (Inr (landing_schedule_df, scores))"
    by (simp add: hill_climbing_schedule_landings_def Let_def)
  then show ?thesis by (rule hill_climbing_loop_scores)
qed

subsection \<open>A run of hill climbing that returns\<close>

text \<open>
  On the stream of \<open>plane_A\<close> and \<open>plane_B\<close>, with every raw draw equal to 0, each of
  the 15 neighbours exchanges the two records; its total score is that of the initial
  schedule, so the loop stops in its first turn.
\<close>

lemma random_random_const: "random_random (\<lambda>n. 0) = (0, (\<lambda>n. 0))"
  by (simp add: random_random_def)

lemma random_sample2_const: "random_sample2 2 (\<lambda>n. 0) = Inr ((0, 1), (\<lambda>n. 0))"
  by (simp add: random_sample2_def randbelow_def random_random_const)

lemma mark_AB: "hill_climbing_mark_urgent [plane_A, plane_B] = [plane_A, plane_B]"
  by (simp add: hill_climbing_mark_urgent_def plane_A_def plane_B_def)

lemma lookup_AB:
  "lookup_airplane [plane_A, plane_B] 1 = Some plane_A"
  "lookup_airplane [plane_A, plane_B] (Suc 0) = Some plane_A"
  "lookup_airplane [plane_A, plane_B] 2 = Some plane_B"
  by (simp_all add: lookup_airplane_def plane_A_def plane_B_def)

lemma initial_AB:
  "evaluate_landing_schedule (schedule_landings [plane_A, plane_B]) [plane_A, plane_B]
     = Inr (frame_AB, 2000)"
  by (simp add: evaluate_landing_schedule_def schedule_landings_def iterrows_def
      Score_sum_def at_set_Score_def lookup_airplane_def plane_A_def plane_B_def frame_AB_def
      Let_def upt_rec [of 0 2] upt_rec [of 1 2])

lemma successor_AB:
  "swap_iloc 0 (Suc 0) frame_AB = Inr frame_BA"
  by (simp add: swap_iloc_def frame_AB_def frame_BA_def)

lemma iterrows_BA:
  "iterrows frame_BA = [(0, rows frame_BA ! 0), (1, rows frame_BA ! 1)]"
  by (simp add: iterrows_def frame_BA_def upt_rec [of 0 2] upt_rec [of 1 2])

lemma recompute_BA:
  "recompute_loop (iterrows frame_BA) [plane_A, plane_B] [0, 0, 0] frame_BA = frame_BA"
  unfolding iterrows_BA
  by (simp add: frame_BA_def lookup_airplane_def plane_A_def plane_B_def Let_def
      at_set_Score_def at_set_Actual_Landing_Time_def)

lemma successors_AB:
  "get_Hill_Tabu_successors_loop k frame_AB [plane_A, plane_B] successors (\<lambda>n. 0)
     = Inr (successors @ replicate k frame_BA, (\<lambda>n. 0))"
proof (induction k arbitrary: successors)
  case 0
  then show ?case by simp
next
  case (Suc k)
  have "length (rows frame_AB) = 2" by (simp add: frame_AB_def)
  then show ?case
    by (simp add: random_sample2_const successor_AB recompute_BA Suc.IH
        replicate_app_Cons_same)
qed

lemma evaluate_BA:
  "evaluate_landing_schedule frame_BA [plane_A, plane_B] = Inr (frame_BA, 2000)"
  by (simp add: evaluate_landing_schedule_def iterrows_BA)
     (simp add: Score_sum_def at_set_Score_def lookup_airplane_def plane_A_def plane_B_def
      frame_BA_def Let_def)

lemma neighbors_AB:
  "hill_climbing_neighbors (replicate k frame_BA) [plane_A, plane_B] frame_AB 2000
     = Inr (frame_AB, 2000)"
  by (induction k) (simp_all add: evaluate_BA)

lemma hill_climbing_run_AB: "hill_climbing_schedule_landings [plane_A, plane_B] (\<lambda>n. 0) =
   Some (Inr (frame_AB, []))"
  by (simp add: hill_climbing_schedule_landings_def mark_AB initial_AB
      hill_climbing_loop.simps [of _ frame_AB] get_Hill_Tabu_successors_def
      successors_AB neighbors_AB)

theorem hill_climbing_scores_empty_witness:
  "\<exists>landing_schedule_df scores.
     hill_climbing_schedule_landings [plane_A, plane_B] (\<lambda>n. 0)
       = Some (Inr (landing_schedule_df, scores))
     \<and> scores = []"
proof -
  obtain landing_schedule_df scores where
    r: "hill_climbing_schedule_landings [plane_A, plane_B] (\<lambda>n. 0)
          = Some (Inr (landing_schedule_df, scores))"
    using hill_climbing_run_AB by blast
  from hill_climbing_scores_empty [OF r] r show ?thesis by blast
qed

section \<open>What the search loops maintain\<close>

text \<open>
  The random positions are inside the frame, so the exchange of two records never raises;
  a frame that has its scores keeps them through the exchange, the recomputation and the
  evaluation, so the total of the scores can always be read.
\<close>

lemma randbelow_less: "0 < n \<Longrightarrow> fst (randbelow n g) < n"
proof -
  assume n: "0 < n"
  define u where "u = frac (g 0)"
  have u: "0 \<le> u" "u < 1" by (simp_all add: u_def frac_lt_1)
  have "u * real n < real n" using u n by simp
  then have "\<lfloor>u * real n\<rfloor> < int n" by (simp add: floor_less_iff)
  moreover have "0 \<le> \<lfloor>u * real n\<rfloor>" using u by simp
  ultimately have "nat \<lfloor>u * real n\<rfloor> < n" by linarith
  then show ?thesis by (simp add: randbelow_def random_random_def u_def)
qed

lemma random_sample2_ok:
  assumes "2 \<le> n"
  shows "\<exists>i j g'. random_sample2 n g = Inr ((i, j), g') \<and> i < n \<and> j < n \<and> i \<noteq> j"
proof -
  obtain i g1 where a: "randbelow n g = (i, g1)" by (cases "randbelow n g")
  obtain k g2 where b: "randbelow (n - 1) g1 = (k, g2)" by (cases "randbelow (n - 1) g1")
  have i: "i < n" using randbelow_less [of n g] a assms by simp
  have k: "k < n - 1" using randbelow_less [of "n - 1" g1] b assms by simp
  have b': "randbelow (n - Suc 0) g1 = (k, g2)" using b by simp
  have "random_sample2 n g = Inr ((i, if k < i then k else k + 1), g2)"
    using assms by (simp add: random_sample2_def a b')
  moreover have "(if k < i then k else k + 1) < n" using i k by auto
  moreover have "i \<noteq> (if k < i then k else k + 1)" by simp
  ultimately show ?thesis using i by blast
qed

lemma random_choice_ok:
  assumes "xs \<noteq> []"
  shows "\<exists>x g'. random_choice xs g = Inr (x, g') \<and> x \<in> set xs"
proof -
  obtain k g' where a: "randbelow (length xs) g = (k, g')" by (cases "randbelow (length xs) g")
  have "k < length xs" using randbelow_less [of "length xs" g] a assms by simp
  then show ?thesis using assms by (simp add: random_choice_def a)
qed

lemma swap_iloc_ok:
  "i < n \<Longrightarrow> j < n \<Longrightarrow> scored_frame n df \<Longrightarrow>
   \<exists>df'. swap_iloc i j df = Inr df' \<and> scored_frame n df'"
  by (simp add: swap_iloc_def scored_frame_def)

lemma recompute_loop_has_Score:
  "has_Score df \<Longrightarrow> has_Score (recompute_loop irs aps strip df)"
  by (induction irs aps strip df rule: recompute_loop.induct)
     (simp_all add: Let_def at_set_Score_def at_set_Actual_Landing_Time_def split: option.splits)

lemma recompute_loop_length:
  "length (rows (recompute_loop irs aps strip df)) = length (rows df)"
  by (induction irs aps strip df rule: recompute_loop.induct)
     (simp_all add: Let_def at_set_Score_def at_set_Actual_Landing_Time_def split: option.splits)

lemma recompute_loop_ok:
  "scored_frame n df \<Longrightarrow> scored_frame n (recompute_loop irs aps strip df)"
  by (simp add: scored_frame_def recompute_loop_has_Score recompute_loop_length)

lemma successors_loop_ok:
  assumes "2 \<le> n" "scored_frame n df"
  shows "list_all (scored_frame n) successors \<Longrightarrow>
    \<exists>successors' g'. get_Hill_Tabu_successors_loop k df aps successors g = Inr (successors', g')
       \<and> list_all (scored_frame n) successors' \<and> length successors' = length successors + k"
proof (induction k arbitrary: successors g)
  case 0
  then show ?case by simp
next
  case (Suc k)
  have len: "length (rows df) = n" using assms(2) by (simp add: scored_frame_def)
  obtain i j g1 where s: "random_sample2 n g = Inr ((i, j), g1)" and ij: "i < n" "j < n"
    using random_sample2_ok [OF assms(1), of g] by blast
  obtain new where sw: "swap_iloc i j df = Inr new" and new: "scored_frame n new"
    using swap_iloc_ok [OF ij assms(2)] by blast
  let ?new = "recompute_loop (iterrows new) aps [0, 0, 0] new"
  have "scored_frame n ?new" using new by (rule recompute_loop_ok)
  with Suc.prems have "list_all (scored_frame n) (successors @ [?new])" by simp
  from Suc.IH [OF this, of g1] show ?case
    by (simp add: len s sw)
qed

lemma get_Hill_Tabu_successors_ok:
  assumes "2 \<le> n" "scored_frame n df"
  shows "\<exists>neighbors g'. get_Hill_Tabu_successors df aps k g = Inr (neighbors, g')
       \<and> list_all (scored_frame n) neighbors \<and> length neighbors = k"
  using successors_loop_ok [OF assms, of "[]" k aps g]
  by (simp add: get_Hill_Tabu_successors_def)

lemma evaluate_landing_schedule_ok:
  assumes "scored_frame n df"
  shows "\<exists>df' total. evaluate_landing_schedule df aps = Inr (df', total) \<and> scored_frame n df'"
proof -
  let ?df = "evaluate_loop (iterrows df) aps df"
  have "has_Score ?df" using assms by (simp add: evaluate_loop_has_Score scored_frame_def)
  moreover have "length (rows ?df) = n"
    using assms by (simp add: evaluate_loop_rows scored_frame_def)
  ultimately show ?thesis
    by (simp add: evaluate_landing_schedule_def Score_sum_def scored_frame_def Let_def)
qed

section \<open>Tabu search\<close>

lemma tabu_search_neighbors_ok:
  "list_all (scored_frame n) neighbors \<Longrightarrow> list_all (scored_frame n) evaluated \<Longrightarrow>
   scored_frame n best_solution_df \<Longrightarrow> scored_frame n next_state_df \<Longrightarrow>
   \<exists>evaluated' best_solution_df' best_solution_score' next_state_df' next_score' tabu_list'.
     tabu_search_neighbors to_string aps max_tabu_size neighbors evaluated
        best_solution_df best_solution_score next_state_df next_score tabu_list
       = Inr (evaluated', best_solution_df', best_solution_score', next_state_df', next_score',
              tabu_list')
     \<and> list_all (scored_frame n) evaluated'
     \<and> length evaluated' = length evaluated + length neighbors
     \<and> scored_frame n best_solution_df' \<and> scored_frame n next_state_df'"
proof (induction neighbors arbitrary: evaluated best_solution_df best_solution_score
    next_state_df next_score tabu_list)
  case Nil
  then show ?case by simp
next
  case (Cons neighbor_df rest)
  from Cons.prems(1) have nb: "scored_frame n neighbor_df" and rest: "list_all (scored_frame n) rest"
    by simp_all
  obtain neighbor_df' score where
    ev: "evaluate_landing_schedule neighbor_df aps = Inr (neighbor_df', score)"
    and nb': "scored_frame n neighbor_df'"
    using evaluate_landing_schedule_ok [OF nb, of aps] by blast
  define b' where "b' = (if score < best_solution_score then neighbor_df' else best_solution_df)"
  define bs' where "bs' = (if score < best_solution_score then score else best_solution_score)"
  define n' where "n' = (if score < next_score then neighbor_df' else next_state_df)"
  define ns' where "ns' = (if score < next_score then score else next_score)"
  define tl2 where "tl2 = (if int (length (tabu_list @ [to_string neighbor_df])) > max_tabu_size
                           then tl (tabu_list @ [to_string neighbor_df])
                           else tabu_list @ [to_string neighbor_df])"
  have ev': "list_all (scored_frame n) (evaluated @ [neighbor_df'])"
    using Cons.prems(2) nb' by simp
  have okb: "scored_frame n b'" using Cons.prems(3) nb' by (simp add: b'_def)
  have okn: "scored_frame n n'" using Cons.prems(4) nb' by (simp add: n'_def)
  have step: "tabu_search_neighbors to_string aps max_tabu_size (neighbor_df # rest) evaluated
        best_solution_df best_solution_score next_state_df next_score tabu_list
      = (if to_string neighbor_df \<notin> set tabu_list
         then tabu_search_neighbors to_string aps max_tabu_size rest (evaluated @ [neighbor_df'])
                b' bs' n' ns' tl2
         else tabu_search_neighbors to_string aps max_tabu_size rest (evaluated @ [neighbor_df'])
                b' bs' next_state_df next_score tabu_list)"
    by (simp add: ev Let_def b'_def bs'_def n'_def ns'_def tl2_def)
  show ?case
  proof (cases "to_string neighbor_df \<notin> set tabu_list")
    case True
    from Cons.IH [OF rest ev' okb okn, of bs' ns' tl2] show ?thesis
      unfolding step using True by simp
  next
    case False
    from Cons.IH [OF rest ev' okb Cons.prems(4), of bs' next_score tabu_list] show ?thesis
      unfolding step using False by simp
  qed
qed

lemma tabu_search_iteration_scores:
  "tabu_search_iteration to_string aps max_tabu_size df current_score scores tabu_list g
     = Inr (df', current_score', scores', tabu_list', g')
   \<Longrightarrow> scores' = scores @ [current_score]"
  by (auto simp: tabu_search_iteration_def Let_def split: sum.splits prod.splits if_splits)

lemma tabu_search_iteration_ok:
  assumes n: "2 \<le> n" and df: "scored_frame n df"
  shows "\<exists>df' current_score' tabu_list' g'.
     tabu_search_iteration to_string aps max_tabu_size df current_score scores tabu_list g
       = Inr (df', current_score', scores @ [current_score], tabu_list', g')
     \<and> scored_frame n df'"
proof -
  obtain neighbors g1 where
    su: "get_Hill_Tabu_successors df aps 15 g = Inr (neighbors, g1)"
    and nb: "list_all (scored_frame n) neighbors" and len: "length neighbors = 15"
    using get_Hill_Tabu_successors_ok [OF n df, of aps 15 g] by blast
  obtain df1 best_solution_score where
    ev: "evaluate_landing_schedule df aps = Inr (df1, best_solution_score)"
    and df1: "scored_frame n df1"
    using evaluate_landing_schedule_ok [OF df, of aps] by blast
  obtain neighbors' b bs nx ns tl' where
    lp: "tabu_search_neighbors to_string aps max_tabu_size neighbors [] df1 best_solution_score
           df1 current_score tabu_list = Inr (neighbors', b, bs, nx, ns, tl')"
    and nb': "list_all (scored_frame n) neighbors'" and len': "length neighbors' = length neighbors"
    and b: "scored_frame n b" and nx: "scored_frame n nx"
    using tabu_search_neighbors_ok [OF nb _ df1 df1, of "[]" to_string aps max_tabu_size
        best_solution_score current_score tabu_list]
    by auto
  obtain u g2 where rr: "random_random g1 = (u, g2)" by (cases "random_random g1")
  have "neighbors' \<noteq> []" using len len' by auto
  then obtain chosen g3 where
    ch: "random_choice neighbors' g2 = Inr (chosen, g3)" and mem: "chosen \<in> set neighbors'"
    using random_choice_ok [of neighbors' g2] by blast
  have "scored_frame n chosen" using nb' mem by (simp add: list_all_iff)
  then obtain chosen' chosen_score where
    ev2: "evaluate_landing_schedule chosen aps = Inr (chosen', chosen_score)"
    and ch': "scored_frame n chosen'"
    using evaluate_landing_schedule_ok [of n chosen aps] by blast
  show ?thesis
    using b nx ch'
    by (simp add: tabu_search_iteration_def su ev lp rr ch ev2 Let_def)
qed

lemma tabu_search_loop_history:
  "tabu_search_loop to_string aps max_iterations max_tabu_size df current_score scores
      tabu_list it g = Inr (df', scores', it')
   \<Longrightarrow> int (length scores) = it \<Longrightarrow> it \<le> max_iterations
   \<Longrightarrow> int (length scores') = it' \<and> it' = max_iterations"
proof (induction to_string aps max_iterations max_tabu_size df current_score scores
    tabu_list it g rule: tabu_search_loop.induct)
  case (1 to_string aps max_iterations max_tabu_size df current_score scores tabu_list it g)
  show ?case
  proof (cases "it < max_iterations")
    case False
    with "1.prems" show ?thesis by (simp add: tabu_search_loop.simps [of _ _ max_iterations])
  next
    case True
    show ?thesis
    proof (cases "tabu_search_iteration to_string aps max_tabu_size df current_score scores
                    tabu_list g")
      case (Inl e)
      with "1.prems"(1) True show ?thesis
        by (simp add: tabu_search_loop.simps [of _ _ max_iterations _ df])
    next
      case (Inr r)
      obtain df1 cs1 scores1 tl1 g1 where r: "r = (df1, cs1, scores1, tl1, g1)"
        by (cases r)
      have sc: "scores1 = scores @ [current_score]"
        using Inr r by (auto dest: tabu_search_iteration_scores)
      have run: "tabu_search_loop to_string aps max_iterations max_tabu_size df1 cs1 scores1
                   tl1 (it + 1) g1 = Inr (df', scores', it')"
        using "1.prems"(1) True Inr r
        by (simp add: tabu_search_loop.simps [of _ _ max_iterations _ df])
      show ?thesis
        using "1.IH" [OF True Inr r [symmetric] refl refl refl run] sc "1.prems"(2) True
        by simp
    qed
  qed
qed

lemma tabu_search_loop_returns:
  "2 \<le> n \<Longrightarrow> scored_frame n df \<Longrightarrow>
   \<exists>df' scores' it'.
     tabu_search_loop to_string aps max_iterations max_tabu_size df current_score scores
        tabu_list it g = Inr (df', scores', it')"
proof (induction to_string aps max_iterations max_tabu_size df current_score scores
    tabu_list it g rule: tabu_search_loop.induct)
  case (1 to_string aps max_iterations max_tabu_size df current_score scores tabu_list it g)
  show ?case
  proof (cases "it < max_iterations")
    case False
    then show ?thesis by (simp add: tabu_search_loop.simps [of _ _ max_iterations])
  next
    case True
    obtain df1 cs1 tl1 g1 where
      step: "tabu_search_iteration to_string aps max_tabu_size df current_score scores tabu_list g
               = Inr (df1, cs1, scores @ [current_score], tl1, g1)"
      and df1: "scored_frame n df1"
      using tabu_search_iteration_ok [OF "1.prems", of to_string aps max_tabu_size current_score
          scores tabu_list g] by blast
    from "1.IH" [OF True step refl refl refl refl "1.prems"(1) df1]
    show ?thesis
      using True step by (simp add: tabu_search_loop.simps [of _ _ max_iterations _ df])
  qed
qed

lemma schedule_landings_all_match:
  "r \<in> set (rows (schedule_landings aps)) \<Longrightarrow> lookup_airplane aps (Airplane_ID r) \<noteq> None"
proof -
  assume "r \<in> set (rows (schedule_landings aps))"
  then have "Airplane_ID r \<in> set (map Airplane_ID (rows (schedule_landings aps)))"
    by simp
  also have "map Airplane_ID (rows (schedule_landings aps))
      = map id' (sort_key remaining_flying_time (filter is_urgent aps)
                 @ sort_key expected_landing_time (filter (\<lambda>ap. \<not> is_urgent ap) aps))"
    by (simp add: schedule_landings_def Let_def schedule_loop_ids del: map_append)
  finally have "Airplane_ID r \<in> id' ` set aps" by auto
  then show ?thesis
    by (auto simp: lookup_airplane_def find_None_iff)
qed

lemma initial_schedule_scored:
  assumes "aps \<noteq> []"
  shows "scored_frame (length aps)
           (evaluate_loop (iterrows (schedule_landings aps)) aps (schedule_landings aps))"
proof -
  let ?df = "schedule_landings aps"
  have len: "length (rows ?df) = length aps" by (rule schedule_landings_length)
  then have "rows ?df \<noteq> []" using assms by auto
  then obtain r where r: "r \<in> set (rows ?df)" by (cases "rows ?df") auto
  have "map snd (iterrows ?df) = rows ?df"
    by (simp add: iterrows_def)
  with r have "r \<in> snd ` set (iterrows ?df)"
    by (metis set_map)
  then obtain ir where ir: "ir \<in> set (iterrows ?df)" "snd ir = r" by auto
  have "lookup_airplane aps (Airplane_ID r) \<noteq> None"
    using r by (rule schedule_landings_all_match)
  with ir have "\<exists>ir \<in> set (iterrows ?df). lookup_airplane aps (Airplane_ID (snd ir)) \<noteq> None"
    by blast
  then have "has_Score (evaluate_loop (iterrows ?df) aps ?df)"
    by (simp add: evaluate_loop_has_Score)
  then show ?thesis
    by (simp add: scored_frame_def evaluate_loop_rows len)
qed

lemma initial_evaluate_ok:
  assumes "aps \<noteq> []"
  shows "\<exists>df total. evaluate_landing_schedule (schedule_landings aps) aps = Inr (df, total)
           \<and> scored_frame (length aps) df"
  using initial_schedule_scored [OF assms]
  by (simp add: evaluate_landing_schedule_def Score_sum_def scored_frame_def Let_def)

lemma tabu_search_mark_urgent_length:
  "length (tabu_search_mark_urgent aps) = length aps"
  by (simp add: tabu_search_mark_urgent_def)

text \<open>
  Claim C7. For every stream, every sequence of random draws and every
  \<^verbatim>\<open>max_iterations\<close> that is not negative: when tabu search returns, the list of scores
  it returns has one entry per turn of the loop, its length is the final value of the
  counter \<^verbatim>\<open>it\<close>, and that is at most \<^verbatim>\<open>max_iterations\<close>. On a stream of at
  least two airplanes tabu search does return, after exactly \<^verbatim>\<open>max_iterations\<close> turns.
\<close>

theorem tabu_search_history_length:
  assumes "0 \<le> max_iterations"
  shows "(\<forall>landing_schedule_df scores it.
            tabu_search_run to_string airplane_stream max_iterations max_tabu_size g
              = Inr (landing_schedule_df, scores, it)
            \<longrightarrow> tabu_search_schedule_landings to_string airplane_stream max_iterations
                  max_tabu_size g = Inr (landing_schedule_df, scores)
                \<and> int (length scores) = it \<and> it \<le> max_iterations)
       \<and> (2 \<le> length airplane_stream \<longrightarrow>
            (\<exists>landing_schedule_df scores.
               tabu_search_run to_string airplane_stream max_iterations max_tabu_size g
                 = Inr (landing_schedule_df, scores, max_iterations)))"
proof (intro conjI allI impI)
  fix landing_schedule_df scores it
  assume run: "tabu_search_run to_string airplane_stream max_iterations max_tabu_size g
              = Inr (landing_schedule_df, scores, it)"
  then show "tabu_search_schedule_landings to_string airplane_stream max_iterations
                  max_tabu_size g = Inr (landing_schedule_df, scores)"
    by (simp add: tabu_search_schedule_landings_def)
  let ?aps = "tabu_search_mark_urgent airplane_stream"
  from run obtain df0 cs0 where
    "tabu_search_loop to_string ?aps max_iterations max_tabu_size df0 cs0 [] [] 0 g
       = Inr (landing_schedule_df, scores, it)"
    by (auto simp: tabu_search_run_def Let_def split: sum.splits prod.splits)
  from tabu_search_loop_history [OF this] assms
  show "int (length scores) = it" and "it \<le> max_iterations" by simp_all
next
  assume n: "2 \<le> length airplane_stream"
  let ?aps = "tabu_search_mark_urgent airplane_stream"
  have ne: "?aps \<noteq> []" and n': "2 \<le> length ?aps"
    using n by (auto simp: tabu_search_mark_urgent_def)
  obtain df0 cs0 where
    ev: "evaluate_landing_schedule (schedule_landings ?aps) ?aps = Inr (df0, cs0)"
    and df0: "scored_frame (length ?aps) df0"
    using initial_evaluate_ok [OF ne] by blast
  obtain df' scores' it' where
    lp: "tabu_search_loop to_string ?aps max_iterations max_tabu_size df0 cs0 [] [] 0 g
       = Inr (df', scores', it')"
    using tabu_search_loop_returns [OF n' df0] by blast
  from tabu_search_loop_history [OF lp] assms have "it' = max_iterations" by simp
  with lp ev
  show "\<exists>landing_schedule_df scores.
               tabu_search_run to_string airplane_stream max_iterations max_tabu_size g
                 = Inr (landing_schedule_df, scores, max_iterations)"
    by (simp add: tabu_search_run_def Let_def)
qed

theorem tabu_search_history_length_witness:
  "\<exists>landing_schedule_df scores.
     tabu_search_schedule_landings (\<lambda>df. []) [plane_A, plane_B] 3 10 (\<lambda>n. 0)
       = Inr (landing_schedule_df, scores)
     \<and> length scores = 3"
proof -
  have h: "(0::int) \<le> 3" by simp
  note th = tabu_search_history_length [OF h, of "\<lambda>df. []" "[plane_A, plane_B]" 10 "\<lambda>n. 0"]
  have "2 \<le> length [plane_A, plane_B]" by simp
  with th obtain landing_schedule_df scores where
    run: "tabu_search_run (\<lambda>df. []) [plane_A, plane_B] 3 10 (\<lambda>n. 0)
            = Inr (landing_schedule_df, scores, 3)"
    by blast
  with th have "tabu_search_schedule_landings (\<lambda>df. []) [plane_A, plane_B] 3 10 (\<lambda>n. 0)
       = Inr (landing_schedule_df, scores) \<and> int (length scores) = 3"
    by blast
  then show ?thesis by auto
qed

section \<open>Simulated annealing\<close>

lemma calculate_score_ok:
  "scored_frame n df \<Longrightarrow> scored_frame n (calculate_score df aps)"
  by (simp add: calculate_score_def scored_frame_def evaluate_loop_has_Score evaluate_loop_rows)

lemma get_schedule_neighbor_ok:
  assumes "2 \<le> n" "scored_frame n df"
  shows "\<exists>neighbor_df g'. get_schedule_neighbor df g = Inr (neighbor_df, g')
           \<and> scored_frame n neighbor_df"
proof -
  have len: "length (rows df) = n" using assms(2) by (simp add: scored_frame_def)
  obtain i j g1 where s: "random_sample2 n g = Inr ((i, j), g1)" and ij: "i < n" "j < n"
    using random_sample2_ok [OF assms(1), of g] by blast
  obtain new where sw: "swap_iloc i j df = Inr new" and new: "scored_frame n new"
    using swap_iloc_ok [OF ij assms(2)] by blast
  show ?thesis using new by (simp add: get_schedule_neighbor_def len s sw)
qed

lemma simulated_annealing_iteration_ok:
  assumes "2 \<le> n" "scored_frame n current_schedule" "T \<noteq> 0"
  shows "\<exists>current_schedule' current_score' best_schedule' best_score' g'.
     simulated_annealing_iteration aps current_schedule current_score best_schedule best_score T g
       = Inr (current_schedule', current_score', best_schedule', best_score', g')
     \<and> scored_frame n current_schedule'"
proof -
  obtain neighbor_df g1 where
    nb: "get_schedule_neighbor current_schedule g = Inr (neighbor_df, g1)"
    and ok: "scored_frame n neighbor_df"
    using get_schedule_neighbor_ok [OF assms(1,2), of g] by blast
  define new_schedule where "new_schedule = calculate_score neighbor_df aps"
  have new: "scored_frame n new_schedule"
    unfolding new_schedule_def using ok by (rule calculate_score_ok)
  then obtain new_score where sc: "Score_sum new_schedule = Inr new_score"
    by (simp add: Score_sum_def scored_frame_def)
  obtain u g2 where rr: "random_random g1 = (u, g2)" by (cases "random_random g1")
  show ?thesis
    using new assms(2,3)
    by (simp add: simulated_annealing_iteration_def nb new_schedule_def [symmetric] sc rr Let_def)
qed

lemma simulated_annealing_loop_turns:
  assumes "2 \<le> n"
  shows "scored_frame n current_schedule \<Longrightarrow> (\<forall>j<k. T_min < T * alpha ^ j)
    \<Longrightarrow> T * alpha ^ k \<le> T_min
    \<Longrightarrow> \<exists>best_schedule' best_score'.
         simulated_annealing_loop aps current_schedule current_score best_schedule best_score
           T g turns = Inr (best_schedule', best_score', turns + k)"
proof (induction k arbitrary: current_schedule current_score best_schedule best_score T g turns)
  case 0
  then show ?case
    by (simp add: simulated_annealing_loop.simps [of _ _ _ _ _ T])
next
  case (Suc k)
  from Suc.prems(2) have "T_min < T * alpha ^ 0" by blast
  then have T: "T_min < T" by simp
  then have "T \<noteq> 0" by (auto simp: T_min_def)
  then obtain cs' csc' bs' bsc' g' where
    step: "simulated_annealing_iteration aps current_schedule current_score best_schedule
             best_score T g = Inr (cs', csc', bs', bsc', g')"
    and ok: "scored_frame n cs'"
    using simulated_annealing_iteration_ok [OF assms Suc.prems(1), of T aps current_score
        best_schedule best_score g] by blast
  have a: "\<forall>j<k. T_min < (T * alpha) * alpha ^ j"
  proof (intro allI impI)
    fix j assume "j < k"
    then have "Suc j < Suc k" by simp
    with Suc.prems(2) have "T_min < T * alpha ^ Suc j" by blast
    then show "T_min < (T * alpha) * alpha ^ j" by (simp add: mult.assoc)
  qed
  have b: "(T * alpha) * alpha ^ k \<le> T_min"
    using Suc.prems(3) by (simp add: mult.assoc)
  from Suc.IH [OF ok a b, of csc' bs' bsc' g' "turns + 1"]
  show ?case
    using T step by (simp add: simulated_annealing_loop.simps [of _ _ _ _ _ T])
qed

lemma cooling_66:
  "(\<forall>j<66. T_min < 1 * alpha ^ j)" "1 * alpha ^ 66 \<le> T_min"
proof -
  have "T_min < alpha ^ 65"
    by (simp add: T_min_def alpha_def power_divide)
  moreover have "alpha ^ 65 \<le> alpha ^ j" if "j < 66" for j
    using that by (intro power_decreasing) (simp_all add: alpha_def)
  ultimately show "\<forall>j<66. T_min < 1 * alpha ^ j" by fastforce
  show "1 * alpha ^ 66 \<le> T_min"
    by (simp add: T_min_def alpha_def power_divide)
qed

lemma simulated_annealing_run_66:
  assumes "2 \<le> length aps"
  shows "\<exists>best_schedule best_score. simulated_annealing_run aps g = Inr (best_schedule, best_score, 66)"
proof -
  have ne: "aps \<noteq> []" using assms by auto
  define current_schedule where "current_schedule = calculate_score (schedule_landings aps) aps"
  have ok: "scored_frame (length aps) current_schedule"
    unfolding current_schedule_def calculate_score_def using ne by (rule initial_schedule_scored)
  then obtain current_score where sc: "Score_sum current_schedule = Inr current_score"
    by (simp add: Score_sum_def scored_frame_def)
  from simulated_annealing_loop_turns [OF assms ok cooling_66, of aps current_score
      current_schedule current_score g 0]
  show ?thesis
    by (simp add: simulated_annealing_run_def current_schedule_def [symmetric] sc)
qed

lemma simulated_annealing_run_short:
  assumes "length aps < 2"
  shows "\<exists>e. simulated_annealing_run aps g = Inl e"
proof (cases aps)
  case Nil
  then show ?thesis
    by (simp add: simulated_annealing_run_def calculate_score_def schedule_landings_def
        iterrows_def Score_sum_def)
next
  case (Cons a rest)
  with assms have aps: "aps = [a]" by simp
  define current_schedule where "current_schedule = calculate_score (schedule_landings aps) aps"
  have ok: "scored_frame (length aps) current_schedule"
    unfolding current_schedule_def calculate_score_def
    by (rule initial_schedule_scored) (simp add: aps)
  then obtain current_score where sc: "Score_sum current_schedule = Inr current_score"
    by (simp add: Score_sum_def scored_frame_def)
  have len: "length (rows current_schedule) = 1"
    using ok by (simp add: scored_frame_def aps)
  have "simulated_annealing_iteration aps current_schedule current_score current_schedule
          current_score 1 g = Inl ValueError"
    by (simp add: simulated_annealing_iteration_def get_schedule_neighbor_def
        random_sample2_def len)
  then show ?thesis
    by (simp add: simulated_annealing_run_def current_schedule_def [symmetric] sc
        simulated_annealing_loop.simps [of _ _ _ _ _ 1] T_min_def)
qed

text \<open>
  Claim C6, as amended. The temperature starts at 1, is multiplied by 0.9 at the end of
  every turn, whether the neighbour was accepted or not, and the loop runs while it is
  above 0.001. On every stream of at least two airplanes, whatever the random draws are,
  the loop makes exactly 66 turns: \<open>0.9 ^ 65\<close> is still above 0.001 and \<open>0.9 ^ 66\<close>
  is not. On a stream of fewer than two airplanes simulated annealing raises an error
  (an empty frame has no scores to add up; one record cannot be exchanged with another).
\<close>

theorem simulated_annealing_turns:
  "(2 \<le> length airplane_stream \<longrightarrow>
      (\<exists>best_schedule best_score.
         simulated_annealing_run airplane_stream g = Inr (best_schedule, best_score, 66)
         \<and> simulated_annealing_schedule_landings airplane_stream g
             = Inr (best_schedule, best_score)))
   \<and> (length airplane_stream < 2 \<longrightarrow>
      (\<exists>e. simulated_annealing_run airplane_stream g = Inl e))"
proof (intro conjI impI)
  assume "2 \<le> length airplane_stream"
  then obtain best_schedule best_score where
    "simulated_annealing_run airplane_stream g = Inr (best_schedule, best_score, 66)"
    using simulated_annealing_run_66 by blast
  then show "\<exists>best_schedule best_score.
         simulated_annealing_run airplane_stream g = Inr (best_schedule, best_score, 66)
         \<and> simulated_annealing_schedule_landings airplane_stream g
             = Inr (best_schedule, best_score)"
    by (simp add: simulated_annealing_schedule_landings_def)
next
  assume "length airplane_stream < 2"
  then show "\<exists>e. simulated_annealing_run airplane_stream g = Inl e"
    by (rule simulated_annealing_run_short)
qed

theorem simulated_annealing_turns_witness:
  "(\<exists>best_schedule best_score.
      simulated_annealing_run [plane_A, plane_B] (\<lambda>n. 0) = Inr (best_schedule, best_score, 66))
   \<and> (\<exists>e. simulated_annealing_run [] (\<lambda>n. 0) = Inl e)"
proof -
  have a: "2 \<le> length [plane_A, plane_B]" by simp
  have b: "length ([] :: Airplane list) < 2" by simp
  from simulated_annealing_turns [of "[plane_A, plane_B]" "\<lambda>n. 0"] a
  have "\<exists>best_schedule best_score.
      simulated_annealing_run [plane_A, plane_B] (\<lambda>n. 0) = Inr (best_schedule, best_score, 66)"
    by blast
  moreover from simulated_annealing_turns [of "[]" "\<lambda>n. 0"] b
  have "\<exists>e. simulated_annealing_run [] (\<lambda>n. 0) = Inl e"
    by blast
  ultimately show ?thesis by (rule conjI)
qed

text \<open>
  The claim as it was stated, about 44 turns, fails: on the stream of \<open>plane_A\<close> and
  \<open>plane_B\<close> the number of turns is not within a quarter of 44.
\<close>

theorem simulated_annealing_turns_counterexample:
  "\<not> (case simulated_annealing_run [plane_A, plane_B] (\<lambda>n. 0) of
         Inl e \<Rightarrow> False
       | Inr (best_schedule, best_score, turns) \<Rightarrow> \<bar>int turns - 44\<bar> \<le> 11)"
proof -
  have "2 \<le> length [plane_A, plane_B]" by simp
  then obtain best_schedule best_score where
    "simulated_annealing_run [plane_A, plane_B] (\<lambda>n. 0) = Inr (best_schedule, best_score, 66)"
    using simulated_annealing_run_66 by blast
  then show ?thesis by simp
qed

end
